theory Spec2Isabelle
  imports Main "HOL-Library.Sublist" "HOL-Library.AList"
begin

section \<open>JavaScript values used by the packer\<close>

text \<open>
  The program is \<^verbatim>\<open>src/index.ts\<close>: a Node.js script that runs four lists of actions
  around a recursive copy into a staging directory and the creation of a zip archive.
  Strings are \<^typ>\<open>string\<close>; \<^verbatim>\<open>undefined\<close> (an array read out of range) is \<^term>\<open>None\<close>.
\<close>

definition digit_char :: "nat \<Rightarrow> char" where
  "digit_char d = ''0123456789'' ! d"

text \<open>\<^verbatim>\<open>Number.prototype.toString()\<close> on a non-negative integer: its decimal digits.\<close>

fun nat_toString :: "nat \<Rightarrow> string" where
  "nat_toString n =
     (if n < 10 then [digit_char n] else nat_toString (n div 10) @ [digit_char (n mod 10)])"

declare nat_toString.simps [simp del]

definition int_toString :: "int \<Rightarrow> string" where
  "int_toString i = (if i < 0 then ''-'' @ nat_toString (nat (- i)) else nat_toString (nat i))"

text \<open>\<^verbatim>\<open>s.padStart(n, c)\<close> with a one-character filler.\<close>

definition padStart :: "nat \<Rightarrow> char \<Rightarrow> string \<Rightarrow> string" where
  "padStart n c s = replicate (n - length s) c @ s"

text \<open>
  A \<^verbatim>\<open>Date\<close> in local time, by its calendar fields: the month is the calendar month
  (1 to 12) and \<open>dt_date\<close> the day of the month (1 to 31). The getters are the ones of
  ECMAScript: \<^verbatim>\<open>getMonth()\<close> counts from 0, \<^verbatim>\<open>getDate()\<close> is the day of the month and
  \<^verbatim>\<open>getDay()\<close> the day of the week (0 for Sunday), computed from the Gregorian date.
\<close>

record date_time =
  dt_year :: int
  dt_month :: nat
  dt_date :: nat
  dt_hours :: nat
  dt_minutes :: nat
  dt_seconds :: nat

definition getFullYear :: "date_time \<Rightarrow> int" where
  "getFullYear d = dt_year d"

definition getMonth :: "date_time \<Rightarrow> nat" where
  "getMonth d = dt_month d - 1"

definition getDate :: "date_time \<Rightarrow> nat" where
  "getDate d = dt_date d"

definition getDay :: "date_time \<Rightarrow> nat" where
  "getDay d =
     (let m = dt_month d;
          y = (if m < 3 then dt_year d - 1 else dt_year d);
          t = [0, 3, 2, 5, 0, 3, 5, 1, 4, 6, 2, 4] ! (m - 1)
      in nat ((y + y div 4 - y div 100 + y div 400 + t + int (dt_date d)) mod 7))"

definition getHours :: "date_time \<Rightarrow> nat" where
  "getHours d = dt_hours d"

definition getMinutes :: "date_time \<Rightarrow> nat" where
  "getMinutes d = dt_minutes d"

definition getSeconds :: "date_time \<Rightarrow> nat" where
  "getSeconds d = dt_seconds d"

section \<open>Paths: \<^verbatim>\<open>path.join\<close> on POSIX\<close>

fun split_on :: "char \<Rightarrow> string \<Rightarrow> string list" where
  "split_on c [] = [[]]"
| "split_on c (x # xs) =
     (if x = c then [] # split_on c xs
      else (case split_on c xs of [] \<Rightarrow> [[x]] | s # ss \<Rightarrow> (x # s) # ss))"

fun join_with :: "string \<Rightarrow> string list \<Rightarrow> string" where
  "join_with sep [] = []"
| "join_with sep [s] = s"
| "join_with sep (s # t # ts) = s @ sep @ join_with sep (t # ts)"

text \<open>
  One segment of Node's \<^verbatim>\<open>normalizeString\<close>; the segments kept so far are a stack, last
  segment first. An empty segment and \<^verbatim>\<open>.\<close> are dropped, \<^verbatim>\<open>..\<close> removes the last segment
  unless there is none or it is \<^verbatim>\<open>..\<close> itself, in which case it is kept when the path is
  relative (\<open>allowAboveRoot\<close>) and dropped otherwise.
\<close>

fun norm_step :: "bool \<Rightarrow> string list \<Rightarrow> string \<Rightarrow> string list" where
  "norm_step allowAboveRoot acc seg =
     (if seg = [] \<or> seg = ''.'' then acc
      else if seg = ''..'' then
        (case acc of
           [] \<Rightarrow> if allowAboveRoot then [''..''] else []
         | lastSeg # rest \<Rightarrow>
             if lastSeg = ''..'' then (if allowAboveRoot then ''..'' # acc else acc) else rest)
      else seg # acc)"

definition normalizeString :: "bool \<Rightarrow> string list \<Rightarrow> string list" where
  "normalizeString allowAboveRoot segs = rev (foldl (norm_step allowAboveRoot) [] segs)"

definition is_absolute :: "string \<Rightarrow> bool" where
  "is_absolute path = (path \<noteq> [] \<and> hd path = CHR ''/'')"

definition trailing_separator :: "string \<Rightarrow> bool" where
  "trailing_separator path = (path \<noteq> [] \<and> last path = CHR ''/'')"

text \<open>The segments a path normalises to.\<close>

definition path_segments :: "string \<Rightarrow> string list" where
  "path_segments path = normalizeString (\<not> is_absolute path) (split_on CHR ''/'' path)"

definition Path_normalize :: "string \<Rightarrow> string" where
  "Path_normalize path =
     (if path = [] then ''.''
      else
        (let body = join_with ''/'' (path_segments path)
         in if body = [] then
              (if is_absolute path then ''/''
               else if trailing_separator path then ''./'' else ''.'')
            else (if is_absolute path then ''/'' else []) @ body @
                 (if trailing_separator path then ''/'' else [])))"

definition Path_join :: "string \<Rightarrow> string \<Rightarrow> string" where
  "Path_join a b =
     (if a = [] \<and> b = [] then ''.''
      else if a = [] then Path_normalize b
      else if b = [] then Path_normalize a
      else Path_normalize (a @ ''/'' @ b))"

text \<open>
  What a directory can hold under a name: not the empty string, \<^verbatim>\<open>.\<close> or \<^verbatim>\<open>..\<close>, and no
  separator.
\<close>

definition valid_name :: "string \<Rightarrow> bool" where
  "valid_name n = (n \<noteq> [] \<and> n \<noteq> ''.'' \<and> n \<noteq> ''..'' \<and> CHR ''/'' \<notin> set n)"

subsection \<open>Joining a name to a path adds one segment\<close>

lemma split_on_nonempty [simp]: "split_on c s \<noteq> []"
  by (induction s) (auto split: list.splits)

lemma split_on_append: "split_on c (xs @ c # ys) = split_on c xs @ split_on c ys"
  by (induction xs) (auto split: list.splits)

lemma split_on_none: "c \<notin> set n \<Longrightarrow> split_on c n = [n]"
  by (induction n) auto

lemma split_on_free: "s \<in> set (split_on c p) \<Longrightarrow> c \<notin> set s"
proof (induction p arbitrary: s)
  case Nil
  then show ?case by simp
next
  case (Cons x xs)
  show ?case
  proof (cases "x = c")
    case True
    with Cons show ?thesis by auto
  next
    case False
    obtain h t where ht: "split_on c xs = h # t"
      by (cases "split_on c xs") auto
    with Cons False show ?thesis by auto
  qed
qed

lemma split_on_join_with:
  "segs \<noteq> [] \<Longrightarrow> \<forall>s\<in>set segs. c \<notin> set s \<Longrightarrow> split_on c (join_with [c] segs) = segs"
  by (induction "[c]" segs rule: join_with.induct) (auto simp: split_on_none split_on_append)

fun normal_stack :: "bool \<Rightarrow> string list \<Rightarrow> bool" where
  "normal_stack allow [] = True"
| "normal_stack allow (s # rest) =
     (s \<noteq> [] \<and> s \<noteq> ''.'' \<and> CHR ''/'' \<notin> set s \<and>
      (s = ''..'' \<longrightarrow> allow \<and> (\<forall>t\<in>set rest. t = ''..'')) \<and> normal_stack allow rest)"

lemma normal_stack_step:
  "normal_stack allow acc \<Longrightarrow> CHR ''/'' \<notin> set seg \<Longrightarrow> normal_stack allow (norm_step allow acc seg)"
  by (cases acc) auto

lemma normal_stack_foldl:
  "normal_stack allow acc \<Longrightarrow> \<forall>s\<in>set segs. CHR ''/'' \<notin> set s \<Longrightarrow>
   normal_stack allow (foldl (norm_step allow) acc segs)"
  by (induction segs arbitrary: acc) (auto simp: normal_stack_step simp del: norm_step.simps)

lemma normal_stack_idem:
  "normal_stack allow acc \<Longrightarrow> foldl (norm_step allow) [] (rev acc) = acc"
  by (induction acc) (auto split: list.splits)

lemma length_norm_step: "length (norm_step allow acc seg) \<le> length acc + (if seg = [] then 0 else 1)"
  by (auto split: list.splits)

lemma length_foldl_norm:
  "length (foldl (norm_step allow) acc segs) \<le> length acc + length (filter (\<lambda>s. s \<noteq> []) segs)"
proof (induction segs arbitrary: acc)
  case Nil
  then show ?case by simp
next
  case (Cons s segs)
  have "length (foldl (norm_step allow) (norm_step allow acc s) segs)
        \<le> length (norm_step allow acc s) + length (filter (\<lambda>s. s \<noteq> []) segs)"
    by (rule Cons.IH)
  also have "\<dots> \<le> length acc + (if s = [] then 0 else 1) + length (filter (\<lambda>s. s \<noteq> []) segs)"
    using length_norm_step [of allow acc s] by simp
  finally show ?case by (cases "s = []") (simp_all del: norm_step.simps)
qed

lemma count_split_on: "length (filter (\<lambda>s. s \<noteq> []) (split_on c p)) \<le> length p"
proof (induction p)
  case Nil
  then show ?case by simp
next
  case (Cons x xs)
  obtain h t where ht: "split_on c xs = h # t"
    by (cases "split_on c xs") auto
  with Cons show ?case by (auto split: if_splits)
qed

lemma length_path_segments: "length (path_segments p) \<le> length p"
  using length_foldl_norm [of "\<not> is_absolute p" "[]" "split_on CHR ''/'' p"] count_split_on [of "CHR ''/''" p]
  by (simp add: path_segments_def normalizeString_def)


lemma normal_stack_all:
  "normal_stack allow acc \<Longrightarrow> s \<in> set acc \<Longrightarrow> s \<noteq> [] \<and> CHR ''/'' \<notin> set s"
  by (induction acc) auto

lemma path_segments_normal: "normal_stack (\<not> is_absolute p) (rev (path_segments p))"
  unfolding path_segments_def normalizeString_def rev_rev_ident
  by (rule normal_stack_foldl) (auto dest: split_on_free)

lemma join_with_Nil_iff: "\<forall>s\<in>set segs. s \<noteq> [] \<Longrightarrow> join_with sep segs = [] \<longleftrightarrow> segs = []"
  by (induction sep segs rule: join_with.induct) auto

lemma hd_join_with:
  "segs \<noteq> [] \<Longrightarrow> \<forall>s\<in>set segs. s \<noteq> [] \<Longrightarrow> hd (join_with sep segs) = hd (hd segs)"
  by (induction sep segs rule: join_with.induct) auto

lemma norm_step_empty: "norm_step allow acc [] = acc"
  by simp

lemma foldl_norm_skip_front: "foldl (norm_step allow) acc ([] # segs) = foldl (norm_step allow) acc segs"
  by simp

lemma foldl_norm_skip_back: "foldl (norm_step allow) acc (segs @ [[]]) = foldl (norm_step allow) acc segs"
  by simp

lemma path_segments_rendered:
  assumes n: "normal_stack (\<not> a) (rev segs)" and ne: "segs \<noteq> []"
  shows "path_segments ((if a then ''/'' else []) @ join_with ''/'' segs @ (if t then ''/'' else [])) = segs
     \<and> is_absolute ((if a then ''/'' else []) @ join_with ''/'' segs @ (if t then ''/'' else [])) = a"
proof -
  have all: "\<forall>s\<in>set segs. s \<noteq> [] \<and> CHR ''/'' \<notin> set s"
    using normal_stack_all [OF n] by auto
  then have body: "join_with ''/'' segs \<noteq> []"
    using join_with_Nil_iff [of segs "''/''"] ne by auto
  have hd: "hd (join_with ''/'' segs) \<noteq> CHR ''/''"
  proof -
    have "hd segs \<in> set segs" using ne by simp
    then have "hd segs \<noteq> [] \<and> CHR ''/'' \<notin> set (hd segs)" using all by blast
    then have "hd (hd segs) \<noteq> CHR ''/''" by (cases "hd segs") auto
    then show ?thesis using hd_join_with [OF ne, of "''/''"] all by simp
  qed
  have sp: "split_on CHR ''/'' (join_with ''/'' segs) = segs"
    using split_on_join_with [OF ne, of "CHR ''/''"] all by simp
  have spt: "split_on CHR ''/'' (join_with ''/'' segs @ ''/'') = segs @ [[]]"
    using split_on_append [of "CHR ''/''" "join_with ''/'' segs" "[]"] sp by simp
  have idem: "rev (foldl (norm_step (\<not> a)) [] segs) = segs"
    using normal_stack_idem [OF n] by simp
  have idem2: "rev (foldl (norm_step (\<not> a)) [] (segs @ [[]])) = segs"
    using idem by (simp only: foldl_norm_skip_back)
  show ?thesis
    using body hd sp spt idem idem2
    by (cases a; cases t) (simp_all add: path_segments_def normalizeString_def is_absolute_def hd_append norm_step_empty del: norm_step.simps foldl_append)
qed

lemma path_segments_normalize: "path_segments (Path_normalize p) = path_segments p"
proof (cases "p = []")
  case True
  then show ?thesis
    by (simp add: Path_normalize_def path_segments_def normalizeString_def is_absolute_def)
next
  case False
  note n = path_segments_normal [of p]
  show ?thesis
  proof (cases "path_segments p = []")
    case True
    then show ?thesis using False
      by (simp add: Path_normalize_def) (simp add: path_segments_def normalizeString_def is_absolute_def)
  next
    case ne: False
    have all: "\<forall>s\<in>set (path_segments p). s \<noteq> []"
      using normal_stack_all [OF n] by auto
    have body: "join_with ''/'' (path_segments p) \<noteq> []"
      using join_with_Nil_iff [OF all, of "''/''"] ne by simp
    show ?thesis
      using path_segments_rendered [OF n ne, of "trailing_separator p"] False body
      by (simp add: Path_normalize_def Let_def)
  qed
qed

lemma is_absolute_normalize: "p \<noteq> [] \<Longrightarrow> is_absolute (Path_normalize p) = is_absolute p"
proof -
  assume False: "p \<noteq> []"
  note n = path_segments_normal [of p]
  show ?thesis
  proof (cases "path_segments p = []")
    case True
    then show ?thesis using False
      by (simp add: Path_normalize_def) (simp add: is_absolute_def)
  next
    case ne: False
    have all: "\<forall>s\<in>set (path_segments p). s \<noteq> []"
      using normal_stack_all [OF n] by auto
    have body: "join_with ''/'' (path_segments p) \<noteq> []"
      using join_with_Nil_iff [OF all, of "''/''"] ne by simp
    show ?thesis
      using path_segments_rendered [OF n ne, of "trailing_separator p"] False body
      by (simp add: Path_normalize_def Let_def)
  qed
qed

lemma path_segments_append_name:
  assumes "valid_name n" and "p \<noteq> []"
  shows "path_segments (p @ ''/'' @ n) = path_segments p @ [n]"
proof -
  have abs: "is_absolute (p @ CHR ''/'' # n) = is_absolute p"
    using assms(2) by (simp add: is_absolute_def hd_append)
  have sp: "split_on CHR ''/'' (p @ CHR ''/'' # n) = split_on CHR ''/'' p @ [n]"
    using assms(1) by (simp add: split_on_append split_on_none valid_name_def)
  show ?thesis
    using assms(1)
    by (simp add: path_segments_def normalizeString_def abs sp valid_name_def)
qed

lemma path_segments_valid_name: "valid_name n \<Longrightarrow> path_segments n = [n]"
  by (cases n) (auto simp: path_segments_def normalizeString_def is_absolute_def valid_name_def split_on_none)

lemma path_segments_Nil: "path_segments [] = []"
  by (simp add: path_segments_def normalizeString_def)

lemma path_segments_join:
  "valid_name n \<Longrightarrow> path_segments (Path_join p n) = path_segments p @ [n]"
  using path_segments_append_name [of n p]
  by (cases "p = []")
     (auto simp: Path_join_def path_segments_normalize
        path_segments_valid_name path_segments_Nil valid_name_def)

lemma is_absolute_join:
  "valid_name n \<Longrightarrow> p \<noteq> [] \<Longrightarrow> is_absolute (Path_join p n) = is_absolute p"
proof -
  assume v: "valid_name n" and ne: "p \<noteq> []"
  have "is_absolute (p @ CHR ''/'' # n) = is_absolute p"
    using ne by (simp add: is_absolute_def hd_append)
  then show ?thesis
    using v ne is_absolute_normalize [of "p @ CHR ''/'' # n"]
    by (simp add: Path_join_def valid_name_def)
qed

section \<open>The file system\<close>

text \<open>
  A tree: a regular file with its bytes, a directory with its entries, or an entry that
  is neither (a FIFO, a socket, a device). Symbolic links and permissions are not
  modelled. In an entry list the first entry under a name is the one that counts.
\<close>

datatype node = File string | Dir "(string \<times> node) list" | Other

datatype kind = KFile | KDir | KOther

fun kind_of :: "node \<Rightarrow> kind" where
  "kind_of (File c) = KFile"
| "kind_of (Dir es) = KDir"
| "kind_of Other = KOther"

fun lookup :: "node \<Rightarrow> string list \<Rightarrow> node option" where
  "lookup t [] = Some t"
| "lookup (Dir es) (x # xs) = (case map_of es x of None \<Rightarrow> None | Some c \<Rightarrow> lookup c xs)"
| "lookup t (x # xs) = None"

text \<open>
  \<open>tree_set p n t\<close> puts \<open>n\<close> at \<open>p\<close> when the parent of \<open>p\<close> is a directory of \<open>t\<close> (and
  leaves \<open>t\<close> as it is otherwise); \<open>tree_del p t\<close> removes the entry at \<open>p\<close>.
\<close>

fun tree_set :: "string list \<Rightarrow> node \<Rightarrow> node \<Rightarrow> node" where
  "tree_set [] n t = n"
| "tree_set (x # xs) n (Dir es) =
     (case map_of es x of
        None \<Rightarrow> if xs = [] then Dir (AList.update x n es) else Dir es
      | Some c \<Rightarrow> Dir (AList.update x (tree_set xs n c) es))"
| "tree_set (x # xs) n t = t"

fun tree_del :: "string list \<Rightarrow> node \<Rightarrow> node" where
  "tree_del [] t = t"
| "tree_del (x # xs) (Dir es) =
     (if xs = [] then Dir (AList.delete x es)
      else (case map_of es x of
              None \<Rightarrow> Dir es
            | Some c \<Rightarrow> Dir (AList.update x (tree_del xs c) es)))"
| "tree_del (x # xs) t = t"

text \<open>The names \<^verbatim>\<open>readdir\<close> lists in a directory.\<close>

definition listing :: "(string \<times> node) list \<Rightarrow> string list" where
  "listing es = filter valid_name (remdups (map fst es))"

section \<open>The process: state, errors, logs\<close>

datatype errno = ENOENT | ENOTDIR | EEXIST | ENOTEMPTY | EISDIR | ENAMETOOLONG | EBUSY | EACCES

text \<open>
  What the program can throw. \<open>ConfigMissing\<close> is \<^verbatim>\<open>new Error('"zmpack.json" is required')\<close>,
  \<open>UnsupportedEntryKind p\<close> is
  \<^verbatim>\<open>new Error(`cannot remove "${p}", is not either a file or directory`)\<close>,
  \<open>FsError call e p\<close> the error of a failed \<^verbatim>\<open>fs\<close> call on the path \<open>p\<close>,
  \<open>ShellCommandFailure c\<close> the rejection of \<^verbatim>\<open>child_process.exec\<close> on the command \<open>c\<close>,
  \<open>TypeError\<close> the error of a library call on \<^verbatim>\<open>undefined\<close>, \<open>SyntaxError\<close> the one of
  \<^verbatim>\<open>JSON.parse\<close>, \<open>ArchiverError c\<close> an error of the archiver with the code \<open>c\<close>.

  The last three are the ways in which an asynchronous function stops without a rejection
  that a caller could catch. \<open>UncaughtException err\<close>: \<open>err\<close> was thrown inside an event
  listener, on no promise's stack, and Node ends the process. \<open>NeverSettles\<close>: an awaited
  promise stays pending, what comes after the \<^verbatim>\<open>await\<close> never runs, and nothing else is
  left to run. \<open>Stalled\<close>: the same, but something keeps the process running.
\<close>

datatype error =
    ConfigMissing
  | UnsupportedEntryKind string
  | FsError string errno string
  | ShellCommandFailure string
  | TypeError
  | SyntaxError
  | ArchiverError string
  | UncaughtException error
  | NeverSettles
  | Stalled

datatype logger = MainLogger | ActionLogger | CopyLogger | ArchiverLogger

datatype level = TRACE | INFO | WARN | ERROR

datatype payload = Text string | Thrown error

type_synonym log_entry = "logger \<times> level \<times> payload"

record world =
  fsroot :: node
  cwd :: "string list"
  logs :: "log_entry list"
  console :: "string list"
  clock :: date_time

text \<open>
  An asynchronous function is a function of the world that returns the world it leaves
  and either the value of its promise or the error that stopped it: the one it rejects
  with, or one of \<open>UncaughtException\<close>, \<open>NeverSettles\<close> and \<open>Stalled\<close>. The program has no
  \<^verbatim>\<open>try\<close>: whatever stops a function stops its callers up to \<^verbatim>\<open>main\<close>.
\<close>

type_synonym 'a io = "world \<Rightarrow> (error + 'a) \<times> world"

definition io_return :: "'a \<Rightarrow> 'a io" where
  "io_return x = (\<lambda>w. (Inr x, w))"

definition io_throw :: "error \<Rightarrow> 'a io" where
  "io_throw e = (\<lambda>w. (Inl e, w))"

definition io_bind :: "'a io \<Rightarrow> ('a \<Rightarrow> 'b io) \<Rightarrow> 'b io" where
  "io_bind m f = (\<lambda>w. case m w of (Inl e, w') \<Rightarrow> (Inl e, w') | (Inr x, w') \<Rightarrow> f x w')"

text \<open>\<^verbatim>\<open>for (const x of xs) { await f(x) }\<close>: the first rejection ends the loop.\<close>

fun for_of :: "'a list \<Rightarrow> ('a \<Rightarrow> unit io) \<Rightarrow> unit io" where
  "for_of [] f w = (Inr (), w)"
| "for_of (x # xs) f w =
     (case f x w of (Inl e, w') \<Rightarrow> (Inl e, w') | (Inr u, w') \<Rightarrow> for_of xs f w')"

lemma io_bind_cong [fundef_cong]:
  "m w = m' w' \<Longrightarrow> (\<And>x v. m' w' = (Inr x, v) \<Longrightarrow> f x v = f' x v) \<Longrightarrow>
   io_bind m f w = io_bind m' f' w'"
  by (auto simp: io_bind_def split: prod.splits sum.splits)

lemma for_of_cong [fundef_cong]:
  "xs = ys \<Longrightarrow> w = w' \<Longrightarrow> (\<And>x v. x \<in> set ys \<Longrightarrow> f x v = g x v) \<Longrightarrow>
   for_of xs f w = for_of ys g w'"
  by (induction ys arbitrary: xs w w') (auto split: prod.splits sum.splits)

definition log_to :: "logger \<Rightarrow> level \<Rightarrow> payload \<Rightarrow> unit io" where
  "log_to lg lv msg = (\<lambda>w. (Inr (), w\<lparr>logs := logs w @ [(lg, lv, msg)]\<rparr>))"

definition console_log :: "string \<Rightarrow> unit io" where
  "console_log s = (\<lambda>w. (Inr (), w\<lparr>console := console w @ [s]\<rparr>))"

section \<open>The calls of \<^verbatim>\<open>fs\<close> and \<^verbatim>\<open>process\<close>\<close>

definition PATH_MAX :: nat where
  "PATH_MAX = 4096"

definition NAME_MAX :: nat where
  "NAME_MAX = 255"

text \<open>No call creates an entry under a name of more than \<open>NAME_MAX\<close> bytes.\<close>

definition name_too_long :: "string \<Rightarrow> bool" where
  "name_too_long p = list_ex (\<lambda>s. NAME_MAX < length s) (split_on CHR ''/'' p)"

text \<open>
  A path is resolved from the root when it is absolute and from the working directory
  otherwise. A call fails on the empty path, on a path of \<open>PATH_MAX\<close> bytes or more, on a
  path that names nothing, and on a path with a trailing separator that names something
  other than a directory.
\<close>

definition resolve :: "world \<Rightarrow> string \<Rightarrow> string list" where
  "resolve w p =
     normalizeString False ((if is_absolute p then [] else cwd w) @ split_on CHR ''/'' p)"

definition path_lookup :: "string \<Rightarrow> world \<Rightarrow> errno + node" where
  "path_lookup p w =
     (if p = [] then Inl ENOENT
      else if PATH_MAX \<le> length p then Inl ENAMETOOLONG
      else (case lookup (fsroot w) (resolve w p) of
              None \<Rightarrow> Inl ENOENT
            | Some n \<Rightarrow>
                if trailing_separator p \<and> kind_of n \<noteq> KDir then Inl ENOTDIR else Inr n))"

definition isFile :: "kind \<Rightarrow> bool" where
  "isFile k = (k = KFile)"

definition isDirectory :: "kind \<Rightarrow> bool" where
  "isDirectory k = (k = KDir)"

definition fsStat :: "string \<Rightarrow> kind io" where
  "fsStat p = (\<lambda>w. case path_lookup p w of
                     Inl e \<Rightarrow> (Inl (FsError ''stat'' e p), w)
                   | Inr n \<Rightarrow> (Inr (kind_of n), w))"

definition fsReaddir :: "string \<Rightarrow> string list io" where
  "fsReaddir p = (\<lambda>w. case path_lookup p w of
                        Inl e \<Rightarrow> (Inl (FsError ''scandir'' e p), w)
                      | Inr (Dir es) \<Rightarrow> (Inr (listing es), w)
                      | Inr _ \<Rightarrow> (Inl (FsError ''scandir'' ENOTDIR p), w))"

definition fsReadFile :: "string \<Rightarrow> string io" where
  "fsReadFile p = (\<lambda>w. case path_lookup p w of
                         Inl e \<Rightarrow> (Inl (FsError ''open'' e p), w)
                       | Inr (File c) \<Rightarrow> (Inr c, w)
                       | Inr (Dir es) \<Rightarrow> (Inl (FsError ''read'' EISDIR p), w)
                       | Inr Other \<Rightarrow> (Inr [], w))"

definition fsUnlink :: "string \<Rightarrow> unit io" where
  "fsUnlink p = (\<lambda>w. case path_lookup p w of
                       Inl e \<Rightarrow> (Inl (FsError ''unlink'' e p), w)
                     | Inr (Dir es) \<Rightarrow> (Inl (FsError ''unlink'' EISDIR p), w)
                     | Inr _ \<Rightarrow> (Inr (), w\<lparr>fsroot := tree_del (resolve w p) (fsroot w)\<rparr>))"

definition fsRmdir :: "string \<Rightarrow> unit io" where
  "fsRmdir p = (\<lambda>w. case path_lookup p w of
                      Inl e \<Rightarrow> (Inl (FsError ''rmdir'' e p), w)
                    | Inr (Dir es) \<Rightarrow>
                        if resolve w p = [] then (Inl (FsError ''rmdir'' EBUSY p), w)
                        else if listing es \<noteq> [] then (Inl (FsError ''rmdir'' ENOTEMPTY p), w)
                        else (Inr (), w\<lparr>fsroot := tree_del (resolve w p) (fsroot w)\<rparr>)
                    | Inr _ \<Rightarrow> (Inl (FsError ''rmdir'' ENOTDIR p), w))"

text \<open>
  \<^verbatim>\<open>mkdir\<close> creates one level: the parent has to be a directory and the path must not
  name anything yet.
\<close>

definition fsMkdir :: "string \<Rightarrow> unit io" where
  "fsMkdir p = (\<lambda>w.
     if p = [] then (Inl (FsError ''mkdir'' ENOENT p), w)
     else if PATH_MAX \<le> length p \<or> name_too_long p then
       (Inl (FsError ''mkdir'' ENAMETOOLONG p), w)
     else if lookup (fsroot w) (resolve w p) \<noteq> None then (Inl (FsError ''mkdir'' EEXIST p), w)
     else (case lookup (fsroot w) (butlast (resolve w p)) of
             Some (Dir es) \<Rightarrow> (Inr (), w\<lparr>fsroot := tree_set (resolve w p) (Dir []) (fsroot w)\<rparr>)
           | Some _ \<Rightarrow> (Inl (FsError ''mkdir'' ENOTDIR p), w)
           | None \<Rightarrow> (Inl (FsError ''mkdir'' ENOENT p), w)))"

text \<open>
  \<^verbatim>\<open>copyFile(src, dest)\<close> writes the bytes of the regular file \<open>src\<close> to \<open>dest\<close>, creating it
  or replacing its contents. A destination that is neither a file nor a directory takes
  the bytes and stays what it is.
\<close>

definition fsCopyFile :: "string \<Rightarrow> string \<Rightarrow> unit io" where
  "fsCopyFile src dest = (\<lambda>w.
     case path_lookup src w of
       Inl e \<Rightarrow> (Inl (FsError ''copyfile'' e src), w)
     | Inr (Dir es) \<Rightarrow> (Inl (FsError ''copyfile'' EISDIR src), w)
     | Inr Other \<Rightarrow> (Inr (), w)
     | Inr (File c) \<Rightarrow>
         if dest = [] then (Inl (FsError ''copyfile'' ENOENT dest), w)
         else if PATH_MAX \<le> length dest \<or> name_too_long dest then
           (Inl (FsError ''copyfile'' ENAMETOOLONG dest), w)
         else if trailing_separator dest then (Inl (FsError ''copyfile'' ENOTDIR dest), w)
         else (case lookup (fsroot w) (resolve w dest) of
                 Some (Dir es) \<Rightarrow> (Inl (FsError ''copyfile'' EISDIR dest), w)
               | Some Other \<Rightarrow> (Inr (), w)
               | Some (File c') \<Rightarrow>
                   (Inr (), w\<lparr>fsroot := tree_set (resolve w dest) (File c) (fsroot w)\<rparr>)
               | None \<Rightarrow>
                   (case lookup (fsroot w) (butlast (resolve w dest)) of
                      Some (Dir es) \<Rightarrow>
                        (Inr (), w\<lparr>fsroot := tree_set (resolve w dest) (File c) (fsroot w)\<rparr>)
                    | Some _ \<Rightarrow> (Inl (FsError ''copyfile'' ENOTDIR dest), w)
                    | None \<Rightarrow> (Inl (FsError ''copyfile'' ENOENT dest), w))))"

definition process_chdir :: "string \<Rightarrow> unit io" where
  "process_chdir p = (\<lambda>w. case path_lookup p w of
                            Inl e \<Rightarrow> (Inl (FsError ''chdir'' e p), w)
                          | Inr (Dir es) \<Rightarrow> (Inr (), w\<lparr>cwd := resolve w p\<rparr>)
                          | Inr _ \<Rightarrow> (Inl (FsError ''chdir'' ENOTDIR p), w))"

text \<open>\<^verbatim>\<open>fsExist\<close> (lines 211-221): \<^verbatim>\<open>fs.access(path, F_OK)\<close>, never rejecting.\<close>

definition fsExist :: "string \<Rightarrow> bool io" where
  "fsExist path = (\<lambda>w. (Inr (case path_lookup path w of Inl e \<Rightarrow> False | Inr n \<Rightarrow> True), w))"

section \<open>The recursive walks\<close>

text \<open>\<^verbatim>\<open>rmDirectoryRecursive\<close> (lines 117-131).\<close>

function rmDirectoryRecursive :: "string \<Rightarrow> unit io" where
  "rmDirectoryRecursive dirPath w =
     io_bind (fsReaddir dirPath) (\<lambda>files.
     io_bind (for_of files (\<lambda>itemName.
       io_bind (fsStat (Path_join dirPath itemName)) (\<lambda>itemStat.
         if isFile itemStat then fsUnlink (Path_join dirPath itemName)
         else if isDirectory itemStat then rmDirectoryRecursive (Path_join dirPath itemName)
         else io_throw (UnsupportedEntryKind (Path_join dirPath itemName))))) (\<lambda>u.
     fsRmdir dirPath)) w"
  by pat_completeness auto

lemma fsReaddir_valid_name:
  "fsReaddir p w = (Inr files, v) \<Longrightarrow> n \<in> set files \<Longrightarrow> valid_name n"
  by (auto simp: fsReaddir_def listing_def split: sum.splits node.splits)

lemma fsStat_path_length: "fsStat p w = (Inr k, v) \<Longrightarrow> length p < PATH_MAX"
  by (auto simp: fsStat_def path_lookup_def split: sum.splits if_splits)

lemma deeper_item:
  assumes "fsReaddir dirPath w = (Inr files, v)" and "itemName \<in> set files"
    and "fsStat (Path_join dirPath itemName) va = (Inr itemStat, vb)"
  shows "PATH_MAX - length (path_segments (Path_join dirPath itemName))
         < PATH_MAX - length (path_segments dirPath)"
proof -
  have vn: "valid_name itemName"
    using assms(1,2) by (rule fsReaddir_valid_name)
  have "length (path_segments (Path_join dirPath itemName)) < PATH_MAX"
    using fsStat_path_length [OF assms(3)] length_path_segments [of "Path_join dirPath itemName"]
    by simp
  then show ?thesis
    using path_segments_join [OF vn, of dirPath] by simp
qed

termination rmDirectoryRecursive
  by (relation "measure (\<lambda>(p, w). PATH_MAX - length (path_segments p))")
     (auto intro: deeper_item)

text \<open>\<^verbatim>\<open>copyDirectory\<close> (lines 158-173).\<close>

function copyDirectory :: "string \<Rightarrow> string \<Rightarrow> unit io" where
  "copyDirectory sourcePath targetPath w =
     io_bind (fsExist targetPath) (\<lambda>targetExists.
     io_bind (if \<not> targetExists then fsMkdir targetPath else io_return ()) (\<lambda>u.
     io_bind (fsReaddir sourcePath) (\<lambda>files.
     for_of files (\<lambda>itemName.
       io_bind (fsStat (Path_join sourcePath itemName)) (\<lambda>itemStat.
         if isFile itemStat then
           fsCopyFile (Path_join sourcePath itemName) (Path_join targetPath itemName)
         else if isDirectory itemStat then
           copyDirectory (Path_join sourcePath itemName) (Path_join targetPath itemName)
         else io_return ()))))) w"
  by pat_completeness auto

termination copyDirectory
  by (relation "measure (\<lambda>(p, t, w). PATH_MAX - length (path_segments p))")
     (auto intro: deeper_item)

declare rmDirectoryRecursive.simps [simp del]

declare copyDirectory.simps [simp del]

text \<open>The bodies of the two loops (lines 120-128 and 164-171), to state what one entry does.\<close>

definition removeEntry :: "string \<Rightarrow> string \<Rightarrow> unit io" where
  "removeEntry dirPath itemName =
     io_bind (fsStat (Path_join dirPath itemName)) (\<lambda>itemStat.
       if isFile itemStat then fsUnlink (Path_join dirPath itemName)
       else if isDirectory itemStat then rmDirectoryRecursive (Path_join dirPath itemName)
       else io_throw (UnsupportedEntryKind (Path_join dirPath itemName)))"

definition copyEntry :: "string \<Rightarrow> string \<Rightarrow> string \<Rightarrow> unit io" where
  "copyEntry sourcePath targetPath itemName =
     io_bind (fsStat (Path_join sourcePath itemName)) (\<lambda>itemStat.
       if isFile itemStat then
         fsCopyFile (Path_join sourcePath itemName) (Path_join targetPath itemName)
       else if isDirectory itemStat then
         copyDirectory (Path_join sourcePath itemName) (Path_join targetPath itemName)
       else io_return ())"

lemma rmDirectoryRecursive_unfold:
  "rmDirectoryRecursive dirPath =
     io_bind (fsReaddir dirPath) (\<lambda>files.
     io_bind (for_of files (removeEntry dirPath)) (\<lambda>u.
     fsRmdir dirPath))"
  by (rule ext) (simp add: rmDirectoryRecursive.simps removeEntry_def [abs_def])

lemma copyDirectory_unfold:
  "copyDirectory sourcePath targetPath =
     io_bind (fsExist targetPath) (\<lambda>targetExists.
     io_bind (if \<not> targetExists then fsMkdir targetPath else io_return ()) (\<lambda>u.
     io_bind (fsReaddir sourcePath) (\<lambda>files.
     for_of files (copyEntry sourcePath targetPath))))"
  by (rule ext) (simp add: copyDirectory.simps copyEntry_def [abs_def])

section \<open>The configuration and the environment\<close>

text \<open>The interface \<^verbatim>\<open>Configuration\<close> (lines 223-231).\<close>

record configuration =
  cfg_name :: string
  cfg_targetPath :: string
  cfg_copyBefore :: "string list list"
  cfg_copyAfter :: "string list list"
  cfg_files :: "string list"
  cfg_packBefore :: "string list list"
  cfg_packAfter :: "string list list"

text \<open>
  What a child process leaves: it cannot be spawned, or it exits with a code, its two
  outputs, the file system and the time it leaves.
\<close>

datatype exec_outcome = SpawnError | Exited nat string string node date_time

text \<open>
  The archiver is a library that the script drives through events (lines 177-208). What it
  does with a directory and a target file is not in the program; the program only fixes
  what it is asked and how its answers are handled. One run of the archiver is: the events
  it emits to the three listeners of lines 179-188, in their order; the bytes that have
  reached the target file by then, if the write stream was given any; and how the wait
  for \<^verbatim>\<open>finalize()\<close> ends. The promise resolves; or a call throws on the stack of
  \<^verbatim>\<open>processPack\<close> (\<^verbatim>\<open>createWriteStream\<close> refusing its argument), which rejects the stage; or
  the write stream, which has no listener, emits an error that Node throws as an uncaught
  exception; or the promise stays pending, with nothing left to run (\<open>Never\<close>) or with
  something that keeps the process running (\<open>Stalls\<close>).
\<close>

datatype archiver_event = Close nat | Warning error | Failure error

datatype settlement = Resolves | Rejects error | Crashes error | Never | Stalls

record archive_run =
  ar_events :: "archiver_event list"
  ar_written :: "string option"
  ar_settles :: settlement

text \<open>
  The collaborators of the run: \<open>process_cwd\<close> is \<^verbatim>\<open>process.cwd()\<close> when the script starts
  (the constant \<^verbatim>\<open>workingPath\<close> of line 19), \<open>os_tmpdir\<close> is \<^verbatim>\<open>os.tmpdir()\<close>, \<open>shell\<close> runs a
  command line in a directory on a file system at a time, \<open>jsonParse\<close> is \<^verbatim>\<open>JSON.parse\<close>
  cast to a configuration, \<open>archiver\<close> is the run of the archiver on a directory and a
  target file, on a file system with a working directory.
\<close>

record env =
  process_cwd :: string
  os_tmpdir :: string
  shell :: "string \<Rightarrow> string \<Rightarrow> node \<Rightarrow> date_time \<Rightarrow> exec_outcome"
  jsonParse :: "string \<Rightarrow> configuration option"
  archiver :: "string \<Rightarrow> string \<Rightarrow> node \<Rightarrow> string list \<Rightarrow> archive_run"

definition at_index :: "'a list \<Rightarrow> nat \<Rightarrow> 'a option" where
  "at_index xs i = (if i < length xs then Some (xs ! i) else None)"

text \<open>A value in a template literal.\<close>

definition js_string :: "string option \<Rightarrow> string" where
  "js_string v = (case v of None \<Rightarrow> ''undefined'' | Some s \<Rightarrow> s)"

definition quoted :: "string \<Rightarrow> string" where
  "quoted s = [CHR 0x22] @ s @ [CHR 0x22]"

text \<open>
  \<^verbatim>\<open>childProcessExec(commandLine, { cwd })\<close>: the promise rejects when the shell cannot be
  spawned or exits with a code other than 0; what the command did to the files stays.
\<close>

definition childProcessExec :: "env \<Rightarrow> string \<Rightarrow> string \<Rightarrow> (string \<times> string) io" where
  "childProcessExec e commandLine dir = (\<lambda>w.
     case shell e commandLine dir (fsroot w) (clock w) of
       SpawnError \<Rightarrow> (Inl (ShellCommandFailure commandLine), w)
     | Exited code out err fs t \<Rightarrow>
         if code = 0 then (Inr (out, err), w\<lparr>fsroot := fs, clock := t\<rparr>)
         else (Inl (ShellCommandFailure commandLine), w\<lparr>fsroot := fs, clock := t\<rparr>))"

definition new_Date :: "date_time io" where
  "new_Date = (\<lambda>w. (Inr (clock w), w))"

section \<open>The stages\<close>

text \<open>The body of the loop of \<^verbatim>\<open>processActions\<close> (lines 84-113).\<close>

definition runAction :: "env \<Rightarrow> string \<Rightarrow> string \<Rightarrow> string list \<Rightarrow> unit io" where
  "runAction e stageName workingPath action =
     (let actionType = at_index action 0 in
      if actionType = Some ''delete'' then
        (let itemName = at_index action 1 in
         io_bind (log_to ActionLogger INFO (Text (''DELETE '' @ quoted (js_string itemName)))) (\<lambda>u.
         case itemName of
           None \<Rightarrow> io_throw TypeError
         | Some itemName \<Rightarrow>
             (let itemPath = Path_join workingPath itemName in
              io_bind (fsExist itemPath) (\<lambda>itemExists.
              if itemExists then
                io_bind (fsStat itemPath) (\<lambda>stat.
                if isFile stat then fsUnlink itemPath
                else if isDirectory stat then rmDirectoryRecursive itemPath
                else log_to ActionLogger WARN
                       (Text (''path '' @ quoted itemPath @ '' is not either file or directory'')))
              else io_return ()))))
      else if actionType = Some ''command'' then
        (let commandLine = at_index action 1 in
         io_bind (log_to ActionLogger INFO (Text (''COMMAND '' @ quoted (js_string commandLine)))) (\<lambda>u.
         case commandLine of
           None \<Rightarrow> io_throw TypeError
         | Some commandLine \<Rightarrow>
             io_bind (childProcessExec e commandLine workingPath) (\<lambda>execResult.
             io_bind (console_log (fst execResult)) (\<lambda>u.
             console_log (snd execResult)))))
      else log_to MainLogger WARN
             (Text (''unknown action '' @ quoted (js_string actionType) @ '' in '' @ stageName)))"

text \<open>\<^verbatim>\<open>processActions\<close> (lines 80-115).\<close>

definition processActions :: "env \<Rightarrow> string \<Rightarrow> string \<Rightarrow> string list list \<Rightarrow> unit io" where
  "processActions e stageName workingPath actions =
     io_bind (log_to ActionLogger TRACE (Text (''chdir to '' @ quoted workingPath))) (\<lambda>u.
     io_bind (process_chdir workingPath) (\<lambda>u.
     for_of actions (runAction e stageName workingPath)))"

text \<open>The body of the loop of \<^verbatim>\<open>processCopy\<close> (lines 139-154).\<close>

definition copyItem :: "string \<Rightarrow> string \<Rightarrow> string \<Rightarrow> unit io" where
  "copyItem workingPath targetPath itemName =
     (let sourceItemPath = Path_join workingPath itemName;
          targetItemPath = Path_join targetPath itemName in
      io_bind (fsExist sourceItemPath) (\<lambda>sourceExists.
      if \<not> sourceExists then
        log_to CopyLogger WARN (Text (''item '' @ quoted sourceItemPath @ '' not exists, skip''))
      else
        io_bind (fsStat sourceItemPath) (\<lambda>stat.
        if isFile stat then
          io_bind (log_to CopyLogger TRACE (Text (''copy file '' @ quoted itemName))) (\<lambda>u.
          fsCopyFile sourceItemPath targetItemPath)
        else if isDirectory stat then
          io_bind (log_to CopyLogger TRACE (Text (''copy directory '' @ quoted itemName))) (\<lambda>u.
          copyDirectory sourceItemPath targetItemPath)
        else
          log_to CopyLogger WARN
            (Text (''item '' @ quoted sourceItemPath @ '' is not either a file or a directory'')))))"

text \<open>\<^verbatim>\<open>processCopy\<close> (lines 133-156).\<close>

definition processCopy :: "string \<Rightarrow> string \<Rightarrow> string list \<Rightarrow> unit io" where
  "processCopy workingPath targetPath files =
     io_bind (fsExist targetPath) (\<lambda>targetExists.
     io_bind (if \<not> targetExists then fsMkdir targetPath else io_return ()) (\<lambda>u.
     for_of files (copyItem workingPath targetPath)))"

text \<open>
  \<^verbatim>\<open>createWriteStream(targetFilePath)\<close> (line 177) with the bytes piped into it (line 189).
  The stream opens the file by itself, creating it or emptying it; it can do so when the
  path names a regular file, or nothing in a directory. Where it cannot, nothing is
  written, and the call returns all the same: an error of the stream is not an error of
  the call, and the program does not wait for the stream.
\<close>

definition createWriteStream :: "string \<Rightarrow> string option \<Rightarrow> unit io" where
  "createWriteStream path bytes = (\<lambda>w.
     case bytes of
       None \<Rightarrow> (Inr (), w)
     | Some b \<Rightarrow>
         if path = [] \<or> PATH_MAX \<le> length path \<or> name_too_long path \<or> trailing_separator path
         then (Inr (), w)
         else (case lookup (fsroot w) (resolve w path) of
                 Some (File c) \<Rightarrow>
                   (Inr (), w\<lparr>fsroot := tree_set (resolve w path) (File b) (fsroot w)\<rparr>)
               | Some _ \<Rightarrow> (Inr (), w)
               | None \<Rightarrow>
                   (case lookup (fsroot w) (butlast (resolve w path)) of
                      Some (Dir es) \<Rightarrow>
                        (Inr (), w\<lparr>fsroot := tree_set (resolve w path) (File b) (fsroot w)\<rparr>)
                    | _ \<Rightarrow> (Inr (), w))))"

text \<open>
  The three listeners (lines 179-188). The listener of \<^verbatim>\<open>error\<close> logs the error and throws
  it; the archiver emits from its own callbacks, so the throw is on no promise's stack.
\<close>

definition on_event :: "archiver_event \<Rightarrow> unit io" where
  "on_event ev =
     (case ev of
        Close pointer \<Rightarrow>
          log_to ArchiverLogger INFO (Text (''finalized, total '' @ nat_toString pointer @ '' bytes''))
      | Warning err \<Rightarrow> log_to ArchiverLogger WARN (Thrown err)
      | Failure err \<Rightarrow>
          io_bind (log_to ArchiverLogger ERROR (Thrown err)) (\<lambda>u.
          io_throw (UncaughtException err)))"

text \<open>\<^verbatim>\<open>await archive.finalize()\<close> (line 208), by the way the wait ends.\<close>

definition finalize :: "settlement \<Rightarrow> unit io" where
  "finalize s =
     (case s of
        Resolves \<Rightarrow> io_return ()
      | Rejects err \<Rightarrow> io_throw err
      | Crashes err \<Rightarrow> io_throw (UncaughtException err)
      | Never \<Rightarrow> io_throw NeverSettles
      | Stalls \<Rightarrow> io_throw Stalled)"

text \<open>
  \<^verbatim>\<open>processPack\<close> (lines 175-209); the trace of line 176 changes no directory. The archiver
  is asked for the directory \<open>workingPath\<close> (line 207) and the file \<open>targetFilePath\<close>, on the
  file system the stage starts in.
\<close>

definition processPack :: "env \<Rightarrow> string \<Rightarrow> string \<Rightarrow> unit io" where
  "processPack e workingPath targetFilePath =
     io_bind (log_to ActionLogger TRACE (Text (''chdir to '' @ quoted workingPath))) (\<lambda>u.
     io_bind (\<lambda>w. (Inr (archiver e workingPath targetFilePath (fsroot w) (cwd w)), w)) (\<lambda>run.
     io_bind (createWriteStream targetFilePath (ar_written run)) (\<lambda>u.
     io_bind (for_of (ar_events run) on_event) (\<lambda>u.
     finalize (ar_settles run)))))"

text \<open>The timestamp of lines 54-60 and the two names built from it (lines 61 and 69).\<close>

definition timeText :: "date_time \<Rightarrow> string" where
  "timeText timeNow =
     int_toString (getFullYear timeNow) @
     padStart 2 CHR ''0'' (nat_toString (getMonth timeNow)) @
     padStart 2 CHR ''0'' (nat_toString (getDay timeNow)) @
     padStart 2 CHR ''0'' (nat_toString (getHours timeNow)) @
     padStart 2 CHR ''0'' (nat_toString (getMinutes timeNow)) @
     padStart 2 CHR ''0'' (nat_toString (getSeconds timeNow))"

definition tempDirName :: "configuration \<Rightarrow> date_time \<Rightarrow> string" where
  "tempDirName config timeNow = cfg_name config @ ''-'' @ timeText timeNow"

definition targetFileName :: "configuration \<Rightarrow> date_time \<Rightarrow> string" where
  "targetFileName config timeNow = cfg_name config @ ''.'' @ timeText timeNow @ ''.zip''"

text \<open>The two paths of lines 62 and 70.\<close>

definition tempDirPath :: "env \<Rightarrow> configuration \<Rightarrow> date_time \<Rightarrow> string" where
  "tempDirPath e config timeNow = Path_join (os_tmpdir e) (tempDirName config timeNow)"

definition targetFilePath :: "configuration \<Rightarrow> date_time \<Rightarrow> string" where
  "targetFilePath config timeNow = Path_join (cfg_targetPath config) (targetFileName config timeNow)"

text \<open>\<^verbatim>\<open>processConfig\<close> (lines 49-78).\<close>

definition processConfig :: "env \<Rightarrow> configuration \<Rightarrow> string io" where
  "processConfig e config =
     io_bind (log_to MainLogger INFO (Text ''run copyBefore'')) (\<lambda>u.
     io_bind (processActions e ''copyBefore'' (process_cwd e) (cfg_copyBefore config)) (\<lambda>u.
     io_bind new_Date (\<lambda>timeNow.
     io_bind (log_to MainLogger INFO (Text ''run copy'')) (\<lambda>u.
     io_bind (processCopy (process_cwd e) (tempDirPath e config timeNow) (cfg_files config)) (\<lambda>u.
     io_bind (log_to MainLogger INFO (Text ''run copyAfter'')) (\<lambda>u.
     io_bind (processActions e ''copyAfter'' (process_cwd e) (cfg_copyAfter config)) (\<lambda>u.
     io_bind (log_to MainLogger INFO (Text ''run packBefore'')) (\<lambda>u.
     io_bind (processActions e ''copyBefore'' (tempDirPath e config timeNow)
                (cfg_packBefore config)) (\<lambda>u.
     io_bind (log_to MainLogger INFO (Text ''run pack'')) (\<lambda>u.
     io_bind (processPack e (tempDirPath e config timeNow) (targetFilePath config timeNow)) (\<lambda>u.
     io_bind (log_to MainLogger INFO (Text ''run packAfter'')) (\<lambda>u.
     io_bind (processActions e ''copyBefore'' (tempDirPath e config timeNow)
                (cfg_packAfter config)) (\<lambda>u.
     io_bind (process_chdir (process_cwd e)) (\<lambda>u.
     io_bind (rmDirectoryRecursive (tempDirPath e config timeNow)) (\<lambda>u.
     io_return (targetFilePath config timeNow))))))))))))))))"

definition configFileName :: string where
  "configFileName = ''zmpack.json''"

text \<open>\<^verbatim>\<open>readConfig\<close> (lines 38-47).\<close>

definition readConfig :: "env \<Rightarrow> string \<Rightarrow> configuration io" where
  "readConfig e configName =
     (let configFilePath = Path_join (process_cwd e) configName in
      io_bind (fsExist configFilePath) (\<lambda>isConfigExists.
      if \<not> isConfigExists then io_throw ConfigMissing
      else
        io_bind (fsReadFile configFilePath) (\<lambda>configJson.
        case jsonParse e configJson of
          None \<Rightarrow> io_throw SyntaxError
        | Some config \<Rightarrow> io_return config)))"

text \<open>\<^verbatim>\<open>main\<close> (lines 32-36).\<close>

definition main :: "env \<Rightarrow> unit io" where
  "main e =
     io_bind (readConfig e configFileName) (\<lambda>config.
     io_bind (processConfig e config) (\<lambda>packed.
     log_to MainLogger INFO (Text (''packed on '' @ quoted packed))))"

text \<open>
  How a process ends. Node ends a process that has nothing left to run with the code in
  \<^verbatim>\<open>process.exitCode\<close>, which is 0 unless the program sets it, also when a promise is
  still pending; and it ends a process with an uncaught exception with the code 1.
  \<open>KeepsRunning\<close>: the process does not end.
\<close>

datatype ending = ExitCode nat | KeepsRunning

text \<open>
  The script (lines 27-30): \<^verbatim>\<open>main().catch(err => mainLogger.error(err))\<close>. The handler
  settles a rejection of \<^verbatim>\<open>main\<close>, and only that; nothing in the script calls
  \<^verbatim>\<open>process.exit\<close> or sets \<^verbatim>\<open>process.exitCode\<close>. The result is the world the script leaves
  and how the process ends. The statements before the call (lines 18-25: the working
  directory is read and the loggers are configured) are taken to succeed.
\<close>

definition script :: "env \<Rightarrow> world \<Rightarrow> world \<times> ending" where
  "script e w =
     (case main e w of
        (Inr u, w') \<Rightarrow> (w', ExitCode 0)
      | (Inl err, w') \<Rightarrow>
          (case err of
             UncaughtException x \<Rightarrow> (w', ExitCode 1)
           | NeverSettles \<Rightarrow> (w', ExitCode 0)
           | Stalled \<Rightarrow> (w', KeepsRunning)
           | _ \<Rightarrow> (snd (log_to MainLogger ERROR (Thrown err) w'), ExitCode 0)))"

section \<open>Reasoning about asynchronous functions\<close>

lemma io_bind_Inr: "m w = (Inr x, v) \<Longrightarrow> io_bind m f w = f x v"
  by (simp add: io_bind_def)

lemma io_bind_Inl: "m w = (Inl err, v) \<Longrightarrow> io_bind m f w = (Inl err, v)"
  by (simp add: io_bind_def)

lemma io_bind_eq_Inr:
  "io_bind m f w = (Inr y, w') \<longleftrightarrow> (\<exists>x v. m w = (Inr x, v) \<and> f x v = (Inr y, w'))"
  by (auto simp: io_bind_def split: prod.splits sum.splits)

lemma log_to_apply: "log_to lg lv msg w = (Inr (), w\<lparr>logs := logs w @ [(lg, lv, msg)]\<rparr>)"
  by (simp add: log_to_def)

text \<open>
  \<open>keeps R m w\<close>: running \<open>m\<close> from \<open>w\<close> leaves a world related to \<open>w\<close> by \<open>R\<close>, whether
  \<open>m\<close> returns or throws.
\<close>

definition keeps :: "(world \<Rightarrow> world \<Rightarrow> bool) \<Rightarrow> 'a io \<Rightarrow> world \<Rightarrow> bool" where
  "keeps R m w = R w (snd (m w))"

lemma keeps_cong: "m w = m' w \<Longrightarrow> keeps R m w = keeps R m' w"
  by (simp add: keeps_def)

lemma keeps_same: "reflp R \<Longrightarrow> snd (m w) = w \<Longrightarrow> keeps R m w"
  by (simp add: keeps_def reflpD)

lemma keeps_bind:
  assumes "transp R" and "keeps R m w" and "\<And>x v. m w = (Inr x, v) \<Longrightarrow> keeps R (f x) v"
  shows "keeps R (io_bind m f) w"
proof (cases "m w")
  case (Pair r v)
  show ?thesis
  proof (cases r)
    case (Inl err)
    with Pair assms(2) show ?thesis by (simp add: keeps_def io_bind_def)
  next
    case (Inr x)
    have "R w v" using assms(2) Pair by (simp add: keeps_def)
    moreover have "R v (snd (f x v))" using assms(3) [of x v] Pair Inr by (simp add: keeps_def)
    moreover have "io_bind m f w = f x v" using Pair Inr by (simp add: io_bind_def)
    ultimately show ?thesis using assms(1) by (auto simp: keeps_def dest: transpD)
  qed
qed

lemma keeps_for_of:
  assumes "reflp R" and "transp R"
  shows "(\<And>x v. x \<in> set xs \<Longrightarrow> keeps R (f x) v) \<Longrightarrow> keeps R (for_of xs f) w"
proof (induction xs arbitrary: w)
  case Nil
  then show ?case using assms(1) by (simp add: keeps_def reflpD)
next
  case (Cons a as)
  have eq: "for_of (a # as) f v = io_bind (f a) (\<lambda>u. for_of as f) v" for v
    by (simp add: io_bind_def)
  show ?case
    by (subst keeps_cong [OF eq], rule keeps_bind [OF assms(2)]) (simp_all add: Cons)
qed

lemma keeps_return: "reflp R \<Longrightarrow> keeps R (io_return x) w"
  by (simp add: keeps_def io_return_def reflpD)

lemma keeps_throw: "reflp R \<Longrightarrow> keeps R (io_throw x) w"
  by (simp add: keeps_def io_throw_def reflpD)

lemma keeps_fsExist: "reflp R \<Longrightarrow> keeps R (fsExist p) w"
  by (simp add: keeps_def fsExist_def reflpD)

lemma keeps_fsStat: "reflp R \<Longrightarrow> keeps R (fsStat p) w"
  by (rule keeps_same) (simp_all add: fsStat_def split: sum.splits)

lemma keeps_fsReaddir: "reflp R \<Longrightarrow> keeps R (fsReaddir p) w"
  by (rule keeps_same) (simp_all add: fsReaddir_def split: sum.splits node.splits)

lemma keeps_fsReadFile: "reflp R \<Longrightarrow> keeps R (fsReadFile p) w"
  by (rule keeps_same) (simp_all add: fsReadFile_def split: sum.splits node.splits)

lemma keeps_new_Date: "reflp R \<Longrightarrow> keeps R new_Date w"
  by (rule keeps_same) (simp_all add: new_Date_def)

lemmas keeps_reads = keeps_return keeps_throw keeps_fsExist keeps_fsStat keeps_fsReaddir
  keeps_fsReadFile keeps_new_Date

subsection \<open>What the stages log\<close>

text \<open>
  An entry of a stage: not of the main logger, or a warning. The stages only append such
  entries to the log.
\<close>

definition stage_entry :: "log_entry \<Rightarrow> bool" where
  "stage_entry x = (fst x \<noteq> MainLogger \<or> fst (snd x) = WARN)"

definition log_ext :: "world \<Rightarrow> world \<Rightarrow> bool" where
  "log_ext w w' = (\<exists>new. logs w' = logs w @ new \<and> list_all stage_entry new)"

definition quiet :: "'a io \<Rightarrow> world \<Rightarrow> bool" where
  "quiet m w = keeps log_ext m w"

lemma reflp_log_ext: "reflp log_ext"
  by (rule reflpI) (simp add: log_ext_def)

lemma transp_log_ext: "transp log_ext"
  by (rule transpI) (auto simp: log_ext_def)

lemma quiet_cong: "m w = m' w \<Longrightarrow> quiet m w = quiet m' w"
  by (simp add: quiet_def keeps_def)

lemma quiet_same: "logs (snd (m w)) = logs w \<Longrightarrow> quiet m w"
  by (simp add: quiet_def keeps_def log_ext_def)

lemma quiet_bind:
  "quiet m w \<Longrightarrow> (\<And>x v. m w = (Inr x, v) \<Longrightarrow> quiet (f x) v) \<Longrightarrow> quiet (io_bind m f) w"
  unfolding quiet_def by (rule keeps_bind [OF transp_log_ext])

lemma quiet_for_of:
  "(\<And>x v. x \<in> set xs \<Longrightarrow> quiet (f x) v) \<Longrightarrow> quiet (for_of xs f) w"
  unfolding quiet_def by (rule keeps_for_of [OF reflp_log_ext transp_log_ext])

lemma quiet_log_to: "stage_entry (lg, lv, msg) \<Longrightarrow> quiet (log_to lg lv msg) w"
  by (simp add: quiet_def keeps_def log_ext_def log_to_def)

lemma quiet_return: "quiet (io_return x) w"
  by (rule quiet_same) (simp add: io_return_def)

lemma quiet_throw: "quiet (io_throw x) w"
  by (rule quiet_same) (simp add: io_throw_def)

lemma quiet_fsExist: "quiet (fsExist p) w"
  by (rule quiet_same) (simp add: fsExist_def)

lemma quiet_fsStat: "quiet (fsStat p) w"
  by (rule quiet_same) (simp add: fsStat_def split: sum.splits)

lemma quiet_fsReaddir: "quiet (fsReaddir p) w"
  by (rule quiet_same) (simp add: fsReaddir_def split: sum.splits node.splits)

lemma quiet_fsReadFile: "quiet (fsReadFile p) w"
  by (rule quiet_same) (simp add: fsReadFile_def split: sum.splits node.splits)

lemma quiet_fsUnlink: "quiet (fsUnlink p) w"
  by (rule quiet_same) (simp add: fsUnlink_def split: sum.splits node.splits)

lemma quiet_fsRmdir: "quiet (fsRmdir p) w"
  by (rule quiet_same) (simp add: fsRmdir_def split: sum.splits node.splits)

lemma quiet_fsMkdir: "quiet (fsMkdir p) w"
  by (rule quiet_same) (simp add: fsMkdir_def split: option.splits node.splits)

lemma quiet_fsCopyFile: "quiet (fsCopyFile p q) w"
  by (rule quiet_same) (simp add: fsCopyFile_def split: sum.splits option.splits node.splits)

lemma quiet_chdir: "quiet (process_chdir p) w"
  by (rule quiet_same) (simp add: process_chdir_def split: sum.splits node.splits)

lemma quiet_exec: "quiet (childProcessExec e c d) w"
  by (rule quiet_same) (simp add: childProcessExec_def split: exec_outcome.splits)

lemma quiet_console_log: "quiet (console_log s) w"
  by (rule quiet_same) (simp add: console_log_def)

lemma quiet_new_Date: "quiet new_Date w"
  by (rule quiet_same) (simp add: new_Date_def)

lemmas quiet_prims = quiet_return quiet_throw quiet_fsExist quiet_fsStat quiet_fsReaddir
  quiet_fsReadFile quiet_fsUnlink quiet_fsRmdir quiet_fsMkdir quiet_fsCopyFile quiet_chdir
  quiet_exec quiet_console_log quiet_new_Date

lemma quiet_rmDirectoryRecursive: "quiet (rmDirectoryRecursive p) w"
proof (induction p w rule: rmDirectoryRecursive.induct)
  case (1 dirPath w)
  show ?case
    apply (subst quiet_cong [OF rmDirectoryRecursive.simps])
    apply (intro quiet_bind quiet_for_of quiet_prims)
    apply (auto intro: quiet_prims 1)
    done
qed

lemma quiet_copyDirectory: "quiet (copyDirectory p q) w"
proof (induction p q w rule: copyDirectory.induct)
  case (1 sourcePath targetPath w)
  show ?case
    apply (subst quiet_cong [OF copyDirectory.simps])
    apply (intro quiet_bind quiet_for_of quiet_prims)
    apply (auto intro: quiet_prims 1)
    done
qed

lemma quiet_runAction: "quiet (runAction e st wp a) w"
  unfolding runAction_def Let_def
  by (auto intro!: quiet_bind quiet_log_to quiet_prims quiet_rmDirectoryRecursive
      simp: stage_entry_def split: option.splits)

lemma quiet_processActions: "quiet (processActions e st wp as) w"
  unfolding processActions_def
  by (intro quiet_bind quiet_for_of quiet_log_to quiet_prims quiet_runAction)
     (simp add: stage_entry_def)

lemma quiet_copyItem: "quiet (copyItem wp tp n) w"
  unfolding copyItem_def Let_def
  by (auto intro!: quiet_bind quiet_log_to quiet_prims quiet_copyDirectory
      simp: stage_entry_def)

lemma quiet_processCopy: "quiet (processCopy wp tp fs) w"
  unfolding processCopy_def
  by (auto intro!: quiet_bind quiet_for_of quiet_prims quiet_copyItem)

lemma quiet_createWriteStream: "quiet (createWriteStream p b) w"
  by (rule quiet_same) (simp add: createWriteStream_def split: option.splits node.splits)

lemma quiet_on_event: "quiet (on_event ev) w"
  unfolding on_event_def
  by (cases ev) (auto intro!: quiet_bind quiet_log_to quiet_throw simp: stage_entry_def)

lemma quiet_finalize: "quiet (finalize s) w"
  unfolding finalize_def by (cases s) (simp_all add: quiet_return quiet_throw)

lemma quiet_processPack: "quiet (processPack e wp tp) w"
  unfolding processPack_def
  by (intro quiet_bind quiet_for_of quiet_log_to quiet_createWriteStream quiet_on_event
        quiet_finalize quiet_same)
     (simp_all add: stage_entry_def)

subsection \<open>The events of the archiver\<close>

text \<open>
  What a listener logs for an event; the first error among the events, which is the one
  thrown; and the events that reach a listener: those up to the first error.
\<close>

definition event_entry :: "archiver_event \<Rightarrow> log_entry" where
  "event_entry ev =
     (case ev of
        Close pointer \<Rightarrow>
          (ArchiverLogger, INFO, Text (''finalized, total '' @ nat_toString pointer @ '' bytes''))
      | Warning err \<Rightarrow> (ArchiverLogger, WARN, Thrown err)
      | Failure err \<Rightarrow> (ArchiverLogger, ERROR, Thrown err))"

fun first_failure :: "archiver_event list \<Rightarrow> error option" where
  "first_failure [] = None"
| "first_failure (Failure err # evs) = Some err"
| "first_failure (ev # evs) = first_failure evs"

fun delivered :: "archiver_event list \<Rightarrow> archiver_event list" where
  "delivered [] = []"
| "delivered (Failure err # evs) = [Failure err]"
| "delivered (ev # evs) = ev # delivered evs"

definition pack_result :: "archive_run \<Rightarrow> error + unit" where
  "pack_result run =
     (case first_failure (ar_events run) of
        Some err \<Rightarrow> Inl (UncaughtException err)
      | None \<Rightarrow>
          (case ar_settles run of
             Resolves \<Rightarrow> Inr ()
           | Rejects err \<Rightarrow> Inl err
           | Crashes err \<Rightarrow> Inl (UncaughtException err)
           | Never \<Rightarrow> Inl NeverSettles
           | Stalls \<Rightarrow> Inl Stalled))"

lemma on_event_apply:
  "on_event ev w =
     ((case ev of Failure err \<Rightarrow> Inl (UncaughtException err) | _ \<Rightarrow> Inr ()),
      w\<lparr>logs := logs w @ [event_entry ev]\<rparr>)"
  by (cases ev) (simp_all add: on_event_def event_entry_def log_to_def io_bind_def io_throw_def)

lemma for_of_on_event:
  "for_of evs on_event w =
     ((case first_failure evs of None \<Rightarrow> Inr () | Some err \<Rightarrow> Inl (UncaughtException err)),
      w\<lparr>logs := logs w @ map event_entry (delivered evs)\<rparr>)"
proof (induction evs arbitrary: w)
  case Nil
  show ?case by simp
next
  case (Cons ev evs)
  show ?case
  proof (cases ev)
    case (Close n)
    have "on_event (Close n) w = (Inr (), w\<lparr>logs := logs w @ [event_entry (Close n)]\<rparr>)"
      by (simp add: on_event_apply)
    then show ?thesis using Cons.IH by (simp add: Close)
  next
    case (Warning err)
    have "on_event (Warning err) w = (Inr (), w\<lparr>logs := logs w @ [event_entry (Warning err)]\<rparr>)"
      by (simp add: on_event_apply)
    then show ?thesis using Cons.IH by (simp add: Warning)
  next
    case (Failure err)
    have "on_event (Failure err) w =
        (Inl (UncaughtException err), w\<lparr>logs := logs w @ [event_entry (Failure err)]\<rparr>)"
      by (simp add: on_event_apply)
    then show ?thesis by (simp add: Failure)
  qed
qed

lemma createWriteStream_logs:
  "createWriteStream p b (w\<lparr>logs := l\<rparr>) = (Inr (), (snd (createWriteStream p b w))\<lparr>logs := l\<rparr>)"
  by (simp add: createWriteStream_def resolve_def split: option.splits node.splits)

lemma createWriteStream_keeps:
  "logs (snd (createWriteStream p b w)) = logs w \<and> cwd (snd (createWriteStream p b w)) = cwd w \<and>
   console (snd (createWriteStream p b w)) = console w \<and> clock (snd (createWriteStream p b w)) = clock w"
  by (simp add: createWriteStream_def split: option.splits node.splits)

lemma processPack_run:
  "processPack e wp tf w =
     (pack_result (archiver e wp tf (fsroot w) (cwd w)),
      (snd (createWriteStream tf
              (ar_written (archiver e wp tf (fsroot w) (cwd w))) w))
        \<lparr>logs := logs w @
           (ActionLogger, TRACE, Text (''chdir to '' @ quoted wp)) #
           map event_entry
             (delivered (ar_events (archiver e wp tf (fsroot w) (cwd w))))\<rparr>)"
  by (simp add: processPack_def io_bind_def log_to_def createWriteStream_logs for_of_on_event
        pack_result_def finalize_def io_return_def io_throw_def
      split: option.splits settlement.splits)


subsection \<open>The order of the stages\<close>

definition announce :: "string \<Rightarrow> world \<Rightarrow> world" where
  "announce s w = w\<lparr>logs := logs w @ [(MainLogger, INFO, Text s)]\<rparr>"

definition stage_announcements :: "log_entry list" where
  "stage_announcements =
     map (\<lambda>s. (MainLogger, INFO, Text s))
       [''run copyBefore'', ''run copy'', ''run copyAfter'', ''run packBefore'', ''run pack'',
        ''run packAfter'']"

text \<open>
  \<open>announces xs m w\<close>: the entries that \<open>m\<close> adds to the log from \<open>w\<close> that are not entries
  of a stage are the first of \<open>xs\<close>, in this order, and all of \<open>xs\<close> when \<open>m\<close> returns.
\<close>

definition announces :: "log_entry list \<Rightarrow> 'a io \<Rightarrow> world \<Rightarrow> bool" where
  "announces xs m w =
     (\<exists>new. logs (snd (m w)) = logs w @ new \<and>
        prefix (filter (\<lambda>x. \<not> stage_entry x) new) xs \<and>
        (case fst (m w) of Inl err \<Rightarrow> True | Inr y \<Rightarrow> filter (\<lambda>x. \<not> stage_entry x) new = xs))"

lemma announces_cong: "m w = m' w \<Longrightarrow> announces xs m w = announces xs m' w"
  by (simp add: announces_def)

lemma filter_stage_entries: "list_all stage_entry new \<Longrightarrow> filter (\<lambda>x. \<not> stage_entry x) new = []"
  by (induction new) auto

lemma announces_quiet: "quiet m w \<Longrightarrow> announces [] m w"
  by (auto simp: quiet_def keeps_def log_ext_def announces_def filter_stage_entries split: sum.splits)

lemma announces_bind:
  assumes "quiet m w" and "\<And>x v. m w = (Inr x, v) \<Longrightarrow> announces xs (f x) v"
  shows "announces xs (io_bind m f) w"
proof (cases "m w")
  case (Pair r v)
  from assms(1) Pair obtain n1 where n1: "logs v = logs w @ n1" "list_all stage_entry n1"
    by (auto simp: quiet_def keeps_def log_ext_def)
  show ?thesis
  proof (cases r)
    case (Inl err)
    then show ?thesis using Pair n1
      by (auto simp: announces_def io_bind_def filter_stage_entries)
  next
    case (Inr x)
    have b: "io_bind m f w = f x v" using Pair Inr by (simp add: io_bind_def)
    from assms(2) [of x v] Pair Inr obtain n2 where n2: "logs (snd (f x v)) = logs v @ n2"
      "prefix (filter (\<lambda>x. \<not> stage_entry x) n2) xs"
      "case fst (f x v) of Inl err \<Rightarrow> True | Inr y \<Rightarrow> filter (\<lambda>x. \<not> stage_entry x) n2 = xs"
      by (auto simp: announces_def)
    show ?thesis
      unfolding announces_def b
      by (rule exI [of _ "n1 @ n2"]) (use n1 n2 in \<open>auto simp: filter_stage_entries split: sum.splits\<close>)
  qed
qed

lemma announces_log:
  assumes "\<not> stage_entry (lg, lv, msg)" and "\<And>v. announces xs k v"
  shows "announces ((lg, lv, msg) # xs) (io_bind (log_to lg lv msg) (\<lambda>u. k)) w"
proof -
  let ?v = "w\<lparr>logs := logs w @ [(lg, lv, msg)]\<rparr>"
  have b: "io_bind (log_to lg lv msg) (\<lambda>u. k) w = k ?v"
    by (simp add: io_bind_def log_to_def)
  from assms(2) [of ?v] obtain n2 where n2: "logs (snd (k ?v)) = logs ?v @ n2"
      "prefix (filter (\<lambda>x. \<not> stage_entry x) n2) xs"
      "case fst (k ?v) of Inl err \<Rightarrow> True | Inr y \<Rightarrow> filter (\<lambda>x. \<not> stage_entry x) n2 = xs"
    by (auto simp: announces_def)
  show ?thesis
    unfolding announces_def b
    by (rule exI [of _ "(lg, lv, msg) # n2"]) (use n2 assms(1) in \<open>auto split: sum.splits\<close>)
qed

lemma processConfig_announces: "announces stage_announcements (processConfig e config) w"
  unfolding processConfig_def stage_announcements_def list.map
  by (intro announces_log announces_bind announces_quiet quiet_bind quiet_processActions
        quiet_processCopy quiet_processPack quiet_prims quiet_rmDirectoryRecursive)
     (simp_all add: stage_entry_def)

lemma processConfig_decomposed:
  assumes "processConfig e config w = (Inr path, w')"
  shows "\<exists>w1 w2 w3 w4 w5 w6 w7.
     processActions e ''copyBefore'' (process_cwd e) (cfg_copyBefore config)
        (announce ''run copyBefore'' w) = (Inr (), w1)
   \<and> processCopy (process_cwd e) (tempDirPath e config (clock w1)) (cfg_files config)
        (announce ''run copy'' w1) = (Inr (), w2)
   \<and> processActions e ''copyAfter'' (process_cwd e) (cfg_copyAfter config)
        (announce ''run copyAfter'' w2) = (Inr (), w3)
   \<and> processActions e ''copyBefore'' (tempDirPath e config (clock w1)) (cfg_packBefore config)
        (announce ''run packBefore'' w3) = (Inr (), w4)
   \<and> processPack e (tempDirPath e config (clock w1)) (targetFilePath config (clock w1))
        (announce ''run pack'' w4) = (Inr (), w5)
   \<and> processActions e ''copyBefore'' (tempDirPath e config (clock w1)) (cfg_packAfter config)
        (announce ''run packAfter'' w5) = (Inr (), w6)
   \<and> process_chdir (process_cwd e) w6 = (Inr (), w7)
   \<and> rmDirectoryRecursive (tempDirPath e config (clock w1)) w7 = (Inr (), w')
   \<and> path = targetFilePath config (clock w1)"
  using assms
  by (auto simp: processConfig_def io_bind_eq_Inr log_to_apply announce_def new_Date_def io_return_def)

lemma processConfig_stops_in_pack:
  assumes "processActions e ''copyBefore'' (process_cwd e) (cfg_copyBefore config)
             (announce ''run copyBefore'' w) = (Inr (), w1)"
    and "processCopy (process_cwd e) (tempDirPath e config (clock w1)) (cfg_files config)
             (announce ''run copy'' w1) = (Inr (), w2)"
    and "processActions e ''copyAfter'' (process_cwd e) (cfg_copyAfter config)
             (announce ''run copyAfter'' w2) = (Inr (), w3)"
    and "processActions e ''copyBefore'' (tempDirPath e config (clock w1)) (cfg_packBefore config)
             (announce ''run packBefore'' w3) = (Inr (), w4)"
    and "processPack e (tempDirPath e config (clock w1)) (targetFilePath config (clock w1))
             (announce ''run pack'' w4) = (Inl err, v)"
  shows "processConfig e config w = (Inl err, v)"
  using assms by (simp add: processConfig_def io_bind_def log_to_def announce_def new_Date_def)

lemma processCopy_reuses:
  "processCopy workingPath targetPath files v =
     (if fst (fsExist targetPath v) = Inr True
      then for_of files (copyItem workingPath targetPath) v
      else io_bind (fsMkdir targetPath) (\<lambda>u. for_of files (copyItem workingPath targetPath)) v)"
proof -
  have "fsExist targetPath v = (fst (fsExist targetPath v), v)"
    by (simp add: fsExist_def)
  moreover have "fst (fsExist targetPath v) = Inr True \<or> fst (fsExist targetPath v) = Inr False"
    by (simp add: fsExist_def split: sum.splits)
  ultimately show ?thesis
    by (auto simp: processCopy_def io_bind_def io_return_def)
qed

subsection \<open>Trees\<close>

lemma lookup_tree_del_same: "p \<noteq> [] \<Longrightarrow> lookup (tree_del p t) p = None"
proof (induction p t rule: tree_del.induct)
  case (2 x xs es)
  then show ?case
    by (cases xs) (auto simp: AList.delete_conv AList.update_conv split: option.splits)
qed simp_all

lemma resolve_fsroot_update [simp]: "resolve (w\<lparr>fsroot := t\<rparr>) p = resolve w p"
  by (simp add: resolve_def)

lemma resolve_absolute: "is_absolute p \<Longrightarrow> resolve w p = path_segments p"
  by (simp add: resolve_def path_segments_def)


subsection \<open>The working directory\<close>









subsection \<open>Literal joins\<close>



lemma trailing_separator_append_name:
  "valid_name f \<Longrightarrow> \<not> trailing_separator (d @ CHR ''/'' # f)"
  by (cases f rule: rev_cases) (auto simp: trailing_separator_def valid_name_def)






section \<open>A run\<close>

text \<open>
  The scenario of the specification: a project with a file and a directory, packed under
  the name \<open>demo\<close> on Monday 2 November 2026 at 09:05:07.
\<close>

definition demo_clock :: date_time where
  "demo_clock = \<lparr>dt_year = 2026, dt_month = 11, dt_date = 2, dt_hours = 9, dt_minutes = 5,
     dt_seconds = 7\<rparr>"

definition demo_config :: configuration where
  "demo_config = \<lparr>cfg_name = ''demo'', cfg_targetPath = ''/out'',
     cfg_copyBefore = [[''delete'', ''stale.log'']], cfg_copyAfter = [[''command'', ''true'']],
     cfg_files = [''a.txt'', ''sub''], cfg_packBefore = [[''noop'']], cfg_packAfter = []\<rparr>"

text \<open>
  The archiver of the scenario: it writes the signature of a zip file and the names of the
  entries of the directory, and finalizes; where there is no directory it writes nothing.
\<close>

definition demo_archiver :: "string \<Rightarrow> string \<Rightarrow> node \<Rightarrow> string list \<Rightarrow> archive_run" where
  "demo_archiver workingPath targetFile root dir =
     (case lookup root (normalizeString False
                  ((if is_absolute workingPath then [] else dir) @ split_on CHR ''/'' workingPath)) of
        Some (Dir es) \<Rightarrow>
          \<lparr>ar_events = [], ar_written = Some (''PK'' @ concat (map (\<lambda>x. '' '' @ fst x) es)),
           ar_settles = Resolves\<rparr>
      | _ \<Rightarrow> \<lparr>ar_events = [], ar_written = None, ar_settles = Resolves\<rparr>)"

definition demo_env :: env where
  "demo_env = \<lparr>process_cwd = ''/proj'', os_tmpdir = ''/tmp'',
     shell = (\<lambda>c d fs t. if c = ''true'' then Exited 0 [] [] fs t else Exited 1 [] [] fs t),
     jsonParse = (\<lambda>s. if s = ''{}'' then Some demo_config else None),
     archiver = demo_archiver\<rparr>"

definition demo_root :: node where
  "demo_root =
     Dir [(''proj'', Dir [(''zmpack.json'', File ''{}''), (''a.txt'', File ''hi''),
                          (''sub'', Dir [(''b.txt'', File ''x'')])]),
          (''tmp'', Dir []), (''out'', Dir [])]"

definition demo_world :: world where
  "demo_world = \<lparr>fsroot = demo_root, cwd = [''proj''], logs = [], console = [],
     clock = demo_clock\<rparr>"

lemma io_bind_apply:
  "io_bind m f w = (case m w of (Inl err, w') \<Rightarrow> (Inl err, w') | (Inr x, w') \<Rightarrow> f x w')"
  by (simp add: io_bind_def)

lemma io_bind_weak_cong: "m = m' \<Longrightarrow> w = w' \<Longrightarrow> io_bind m f w = io_bind m' f w'"
  by simp

lemmas run_defs = processConfig_def processActions_def processCopy_def processPack_def
  runAction_def copyItem_def createWriteStream_def on_event_def finalize_def
  rmDirectoryRecursive.simps copyDirectory.simps
  tempDirPath_def targetFilePath_def tempDirName_def targetFileName_def
  fsExist_def fsStat_def fsReaddir_def fsReadFile_def fsUnlink_def fsRmdir_def fsMkdir_def
  fsCopyFile_def process_chdir_def childProcessExec_def new_Date_def log_to_def console_log_def
  io_return_def io_throw_def path_lookup_def resolve_def is_absolute_def trailing_separator_def
  PATH_MAX_def NAME_MAX_def name_too_long_def listing_def valid_name_def at_index_def js_string_def quoted_def Let_def
  isFile_def isDirectory_def io_bind_apply
  Path_join_def Path_normalize_def path_segments_def normalizeString_def
  main_def readConfig_def script_def configFileName_def

lemmas demo_defs = demo_env_def demo_archiver_def demo_config_def demo_world_def demo_root_def

lemma demo_timeText: "timeText demo_clock = ''20261001090507''"
  by (simp add: timeText_def demo_clock_def getFullYear_def getMonth_def getDay_def getHours_def
      getMinutes_def getSeconds_def int_toString_def padStart_def nat_toString.simps digit_char_def)

definition demo_final :: world where
  "demo_final = \<lparr>fsroot =
     Dir [(''proj'', Dir [(''zmpack.json'', File ''{}''), (''a.txt'', File ''hi''),
                          (''sub'', Dir [(''b.txt'', File ''x'')])]),
          (''tmp'', Dir []),
          (''out'', Dir [(''demo.20261001090507.zip'', File ''PK a.txt sub'')])],
     cwd = [''proj''],
     logs = [(MainLogger, INFO, Text ''run copyBefore''),
             (ActionLogger, TRACE, Text (''chdir to '' @ quoted ''/proj'')),
             (ActionLogger, INFO, Text (''DELETE '' @ quoted ''stale.log'')),
             (MainLogger, INFO, Text ''run copy''),
             (CopyLogger, TRACE, Text (''copy file '' @ quoted ''a.txt'')),
             (CopyLogger, TRACE, Text (''copy directory '' @ quoted ''sub'')),
             (MainLogger, INFO, Text ''run copyAfter''),
             (ActionLogger, TRACE, Text (''chdir to '' @ quoted ''/proj'')),
             (ActionLogger, INFO, Text (''COMMAND '' @ quoted ''true'')),
             (MainLogger, INFO, Text ''run packBefore''),
             (ActionLogger, TRACE, Text (''chdir to '' @ quoted ''/tmp/demo-20261001090507'')),
             (MainLogger, WARN, Text (''unknown action '' @ quoted ''noop'' @ '' in copyBefore'')),
             (MainLogger, INFO, Text ''run pack''),
             (ActionLogger, TRACE, Text (''chdir to '' @ quoted ''/tmp/demo-20261001090507'')),
             (MainLogger, INFO, Text ''run packAfter''),
             (ActionLogger, TRACE, Text (''chdir to '' @ quoted ''/tmp/demo-20261001090507''))],
     console = [[], []], clock = demo_clock\<rparr>"

lemma demo_run:
  "processConfig demo_env demo_config demo_world = (Inr ''/out/demo.20261001090507.zip'', demo_final)"
  by (simp add: run_defs demo_defs demo_timeText demo_final_def
      cong: io_bind_weak_cong prod.case_cong_weak sum.case_cong_weak option.case_cong_weak node.case_cong_weak)

text \<open>
  The same run when the temporary directory already has a directory with the name of the
  staging directory, with a file in it.
\<close>

definition stale_world :: world where
  "stale_world = demo_world\<lparr>fsroot :=
     Dir [(''proj'', Dir [(''zmpack.json'', File ''{}''), (''a.txt'', File ''hi''),
                          (''sub'', Dir [(''b.txt'', File ''x'')])]),
          (''tmp'', Dir [(''demo-20261001090507'', Dir [(''old.txt'', File ''old'')])]),
          (''out'', Dir [])]\<rparr>"

definition stale_final :: world where
  "stale_final = demo_final\<lparr>fsroot :=
     Dir [(''proj'', Dir [(''zmpack.json'', File ''{}''), (''a.txt'', File ''hi''),
                          (''sub'', Dir [(''b.txt'', File ''x'')])]),
          (''tmp'', Dir []),
          (''out'', Dir [(''demo.20261001090507.zip'', File ''PK old.txt a.txt sub'')])]\<rparr>"

lemma stale_run:
  "processConfig demo_env demo_config stale_world = (Inr ''/out/demo.20261001090507.zip'', stale_final)"
  by (simp add: run_defs demo_defs demo_timeText demo_final_def stale_world_def stale_final_def
      cong: io_bind_weak_cong prod.case_cong_weak sum.case_cong_weak option.case_cong_weak node.case_cong_weak)

text \<open>
  A project with nothing to copy and no action, and an archiver that cannot read a file:
  it emits \<^verbatim>\<open>error\<close>.
\<close>

definition bare_config :: configuration where
  "bare_config = \<lparr>cfg_name = ''demo'', cfg_targetPath = ''/out'', cfg_copyBefore = [],
     cfg_copyAfter = [], cfg_files = [], cfg_packBefore = [], cfg_packAfter = []\<rparr>"

definition failing_env :: env where
  "failing_env = \<lparr>process_cwd = ''/proj'', os_tmpdir = ''/tmp'',
     shell = (\<lambda>c d fs t. Exited 0 [] [] fs t),
     jsonParse = (\<lambda>s. Some bare_config),
     archiver = (\<lambda>staging archive root dir.
        \<lparr>ar_events = [Failure (FsError ''open'' EACCES staging)], ar_written = Some ''PK'',
         ar_settles = Never\<rparr>)\<rparr>"

text \<open>The same project with an archiver that warns of an entry and never finalizes.\<close>

definition stuck_env :: env where
  "stuck_env = failing_env\<lparr>archiver := (\<lambda>staging archive root dir.
        \<lparr>ar_events = [Warning (ArchiverError ''ENTRYNOTSUPPORTED'')], ar_written = Some ''PK'',
         ar_settles = Never\<rparr>)\<rparr>"


section \<open>The claims\<close>

text \<open>
  C1, as amended. For every configuration the pipeline starts the six stages in the order
  copyBefore, copy, copyAfter, packBefore, pack, packAfter and no other, each when the one
  before has returned: the stages announced in the log of any run are the first of these
  six, in this order, and all six when the run returns. A run that returns is the
  copyBefore actions in the project root, then the copy of the selected files into the
  staging directory, then the copyAfter actions in the project root, the packBefore
  actions in the staging directory, the archive of the staging directory, the packAfter
  actions in the staging directory and at last the removal of the staging directory, each
  from the world the one before left.

  The staging directory need not be a fresh one: the copy stage creates it when nothing has
  its path, and copies into what is there otherwise. The pack stage hands the staging
  directory and the path of the archive to the archiver; what it returns, writes and logs
  is what the archiver answers for them (\<open>pack_result\<close>: the first error among the events
  ends the process; without one the stage ends as the wait for \<^verbatim>\<open>finalize\<close> does). When the
  pack stage does not return, the run ends there, with no packAfter stage and the staging
  directory left in place.
\<close>

theorem stages_in_order:
  "announces stage_announcements (processConfig e config) w \<and>
   (\<forall>path w'. processConfig e config w = (Inr path, w') \<longrightarrow>
     (\<exists>w1 w2 w3 w4 w5 w6 w7.
        processActions e ''copyBefore'' (process_cwd e) (cfg_copyBefore config)
          (announce ''run copyBefore'' w) = (Inr (), w1)
      \<and> processCopy (process_cwd e) (tempDirPath e config (clock w1)) (cfg_files config)
          (announce ''run copy'' w1) = (Inr (), w2)
      \<and> processActions e ''copyAfter'' (process_cwd e) (cfg_copyAfter config)
          (announce ''run copyAfter'' w2) = (Inr (), w3)
      \<and> processActions e ''copyBefore'' (tempDirPath e config (clock w1)) (cfg_packBefore config)
          (announce ''run packBefore'' w3) = (Inr (), w4)
      \<and> processPack e (tempDirPath e config (clock w1)) (targetFilePath config (clock w1))
          (announce ''run pack'' w4) = (Inr (), w5)
      \<and> processActions e ''copyBefore'' (tempDirPath e config (clock w1)) (cfg_packAfter config)
          (announce ''run packAfter'' w5) = (Inr (), w6)
      \<and> process_chdir (process_cwd e) w6 = (Inr (), w7)
      \<and> rmDirectoryRecursive (tempDirPath e config (clock w1)) w7 = (Inr (), w')
      \<and> path = targetFilePath config (clock w1))) \<and>
   (\<forall>workingPath targetPath files v.
      processCopy workingPath targetPath files v =
        (if fst (fsExist targetPath v) = Inr True
         then for_of files (copyItem workingPath targetPath) v
         else io_bind (fsMkdir targetPath)
                (\<lambda>u. for_of files (copyItem workingPath targetPath)) v)) \<and>
   (\<forall>staging archive v.
      processPack e staging archive v =
        (pack_result (archiver e staging archive (fsroot v) (cwd v)),
         (snd (createWriteStream archive
                 (ar_written (archiver e staging archive (fsroot v) (cwd v))) v))
           \<lparr>logs := logs v @
              (ActionLogger, TRACE, Text (''chdir to '' @ quoted staging)) #
              map event_entry
                (delivered (ar_events (archiver e staging archive (fsroot v) (cwd v))))\<rparr>)) \<and>
   (\<forall>w1 w2 w3 w4 err x.
      processActions e ''copyBefore'' (process_cwd e) (cfg_copyBefore config)
        (announce ''run copyBefore'' w) = (Inr (), w1) \<and>
      processCopy (process_cwd e) (tempDirPath e config (clock w1)) (cfg_files config)
        (announce ''run copy'' w1) = (Inr (), w2) \<and>
      processActions e ''copyAfter'' (process_cwd e) (cfg_copyAfter config)
        (announce ''run copyAfter'' w2) = (Inr (), w3) \<and>
      processActions e ''copyBefore'' (tempDirPath e config (clock w1)) (cfg_packBefore config)
        (announce ''run packBefore'' w3) = (Inr (), w4) \<and>
      processPack e (tempDirPath e config (clock w1)) (targetFilePath config (clock w1))
        (announce ''run pack'' w4) = (Inl err, x) \<longrightarrow>
      processConfig e config w = (Inl err, x))"
proof (intro conjI allI impI)
  show "announces stage_announcements (processConfig e config) w"
    by (rule processConfig_announces)
next
  fix path w'
  assume "processConfig e config w = (Inr path, w')"
  then show "\<exists>w1 w2 w3 w4 w5 w6 w7.
        processActions e ''copyBefore'' (process_cwd e) (cfg_copyBefore config)
          (announce ''run copyBefore'' w) = (Inr (), w1)
      \<and> processCopy (process_cwd e) (tempDirPath e config (clock w1)) (cfg_files config)
          (announce ''run copy'' w1) = (Inr (), w2)
      \<and> processActions e ''copyAfter'' (process_cwd e) (cfg_copyAfter config)
          (announce ''run copyAfter'' w2) = (Inr (), w3)
      \<and> processActions e ''copyBefore'' (tempDirPath e config (clock w1)) (cfg_packBefore config)
          (announce ''run packBefore'' w3) = (Inr (), w4)
      \<and> processPack e (tempDirPath e config (clock w1)) (targetFilePath config (clock w1))
          (announce ''run pack'' w4) = (Inr (), w5)
      \<and> processActions e ''copyBefore'' (tempDirPath e config (clock w1)) (cfg_packAfter config)
          (announce ''run packAfter'' w5) = (Inr (), w6)
      \<and> process_chdir (process_cwd e) w6 = (Inr (), w7)
      \<and> rmDirectoryRecursive (tempDirPath e config (clock w1)) w7 = (Inr (), w')
      \<and> path = targetFilePath config (clock w1)"
    by (rule processConfig_decomposed)
next
  fix workingPath targetPath files v
  show "processCopy workingPath targetPath files v =
        (if fst (fsExist targetPath v) = Inr True
         then for_of files (copyItem workingPath targetPath) v
         else io_bind (fsMkdir targetPath)
                (\<lambda>u. for_of files (copyItem workingPath targetPath)) v)"
    by (rule processCopy_reuses)
next
  fix staging archive v
  show "processPack e staging archive v =
        (pack_result (archiver e staging archive (fsroot v) (cwd v)),
         (snd (createWriteStream archive
                 (ar_written (archiver e staging archive (fsroot v) (cwd v))) v))
           \<lparr>logs := logs v @
              (ActionLogger, TRACE, Text (''chdir to '' @ quoted staging)) #
              map event_entry
                (delivered (ar_events (archiver e staging archive (fsroot v) (cwd v))))\<rparr>)"
    by (rule processPack_run)
next
  fix w1 w2 w3 w4 err x
  assume "processActions e ''copyBefore'' (process_cwd e) (cfg_copyBefore config)
        (announce ''run copyBefore'' w) = (Inr (), w1) \<and>
      processCopy (process_cwd e) (tempDirPath e config (clock w1)) (cfg_files config)
        (announce ''run copy'' w1) = (Inr (), w2) \<and>
      processActions e ''copyAfter'' (process_cwd e) (cfg_copyAfter config)
        (announce ''run copyAfter'' w2) = (Inr (), w3) \<and>
      processActions e ''copyBefore'' (tempDirPath e config (clock w1)) (cfg_packBefore config)
        (announce ''run packBefore'' w3) = (Inr (), w4) \<and>
      processPack e (tempDirPath e config (clock w1)) (targetFilePath config (clock w1))
        (announce ''run pack'' w4) = (Inl err, x)"
  then show "processConfig e config w = (Inl err, x)"
    by (blast intro: processConfig_stops_in_pack)
qed

lemma io_returns: "fst (m w) = Inr () \<Longrightarrow> m w = (Inr (), snd (m w))"
  by (cases "m w") simp

lemma bare_stages:
  "\<exists>w1 w2 w3 w4 x.
      processActions failing_env ''copyBefore'' (process_cwd failing_env) (cfg_copyBefore bare_config)
        (announce ''run copyBefore'' demo_world) = (Inr (), w1) \<and>
      processCopy (process_cwd failing_env) (tempDirPath failing_env bare_config (clock w1))
        (cfg_files bare_config) (announce ''run copy'' w1) = (Inr (), w2) \<and>
      processActions failing_env ''copyAfter'' (process_cwd failing_env) (cfg_copyAfter bare_config)
        (announce ''run copyAfter'' w2) = (Inr (), w3) \<and>
      processActions failing_env ''copyBefore'' (tempDirPath failing_env bare_config (clock w1))
        (cfg_packBefore bare_config) (announce ''run packBefore'' w3) = (Inr (), w4) \<and>
      processPack failing_env (tempDirPath failing_env bare_config (clock w1))
        (targetFilePath bare_config (clock w1)) (announce ''run pack'' w4) =
        (Inl (UncaughtException (FsError ''open'' EACCES ''/tmp/demo-20261001090507'')), x)"
proof -
  let ?E = failing_env and ?C = bare_config
  let ?w1 = "snd (processActions ?E ''copyBefore'' (process_cwd ?E) (cfg_copyBefore ?C)
        (announce ''run copyBefore'' demo_world))"
  let ?w2 = "snd (processCopy (process_cwd ?E) (tempDirPath ?E ?C (clock ?w1))
        (cfg_files ?C) (announce ''run copy'' ?w1))"
  let ?w3 = "snd (processActions ?E ''copyAfter'' (process_cwd ?E) (cfg_copyAfter ?C)
        (announce ''run copyAfter'' ?w2))"
  let ?w4 = "snd (processActions ?E ''copyBefore'' (tempDirPath ?E ?C (clock ?w1))
        (cfg_packBefore ?C) (announce ''run packBefore'' ?w3))"
  let ?x = "snd (processPack ?E (tempDirPath ?E ?C (clock ?w1))
        (targetFilePath ?C (clock ?w1)) (announce ''run pack'' ?w4))"
  note defs = run_defs demo_defs demo_timeText failing_env_def bare_config_def announce_def
  note cong = io_bind_weak_cong prod.case_cong_weak sum.case_cong_weak option.case_cong_weak
    node.case_cong_weak
  have 1: "processActions ?E ''copyBefore'' (process_cwd ?E) (cfg_copyBefore ?C)
        (announce ''run copyBefore'' demo_world) = (Inr (), ?w1)"
    by (rule io_returns) (simp add: defs cong: cong)
  have 2: "processCopy (process_cwd ?E) (tempDirPath ?E ?C (clock ?w1))
        (cfg_files ?C) (announce ''run copy'' ?w1) = (Inr (), ?w2)"
    by (rule io_returns) (simp add: defs cong: cong)
  have 3: "processActions ?E ''copyAfter'' (process_cwd ?E) (cfg_copyAfter ?C)
        (announce ''run copyAfter'' ?w2) = (Inr (), ?w3)"
    by (rule io_returns) (simp add: defs cong: cong)
  have 4: "processActions ?E ''copyBefore'' (tempDirPath ?E ?C (clock ?w1))
        (cfg_packBefore ?C) (announce ''run packBefore'' ?w3) = (Inr (), ?w4)"
    by (rule io_returns) (simp add: defs cong: cong)
  have "fst (processPack ?E (tempDirPath ?E ?C (clock ?w1))
        (targetFilePath ?C (clock ?w1)) (announce ''run pack'' ?w4)) =
        Inl (UncaughtException (FsError ''open'' EACCES ''/tmp/demo-20261001090507''))"
    by (simp add: defs cong: cong)
  then have 5: "processPack ?E (tempDirPath ?E ?C (clock ?w1))
        (targetFilePath ?C (clock ?w1)) (announce ''run pack'' ?w4) =
        (Inl (UncaughtException (FsError ''open'' EACCES ''/tmp/demo-20261001090507'')), ?x)"
    by (simp add: prod_eq_iff)
  show ?thesis
    using 1 2 3 4 5 by blast
qed

theorem stages_in_order_witness:
  "announces stage_announcements (processConfig demo_env demo_config) demo_world \<and>
   (\<exists>w1 w2 w3 w4 w5 w6 w7.
        processActions demo_env ''copyBefore'' (process_cwd demo_env) (cfg_copyBefore demo_config)
          (announce ''run copyBefore'' demo_world) = (Inr (), w1)
      \<and> processCopy (process_cwd demo_env) (tempDirPath demo_env demo_config (clock w1))
          (cfg_files demo_config) (announce ''run copy'' w1) = (Inr (), w2)
      \<and> processActions demo_env ''copyAfter'' (process_cwd demo_env) (cfg_copyAfter demo_config)
          (announce ''run copyAfter'' w2) = (Inr (), w3)
      \<and> processActions demo_env ''copyBefore'' (tempDirPath demo_env demo_config (clock w1))
          (cfg_packBefore demo_config) (announce ''run packBefore'' w3) = (Inr (), w4)
      \<and> processPack demo_env (tempDirPath demo_env demo_config (clock w1))
          (targetFilePath demo_config (clock w1)) (announce ''run pack'' w4) = (Inr (), w5)
      \<and> processActions demo_env ''copyBefore'' (tempDirPath demo_env demo_config (clock w1))
          (cfg_packAfter demo_config) (announce ''run packAfter'' w5) = (Inr (), w6)
      \<and> process_chdir (process_cwd demo_env) w6 = (Inr (), w7)
      \<and> rmDirectoryRecursive (tempDirPath demo_env demo_config (clock w1)) w7 = (Inr (), demo_final)
      \<and> ''/out/demo.20261001090507.zip'' = targetFilePath demo_config (clock w1)) \<and>
   (\<exists>w1 w2 w3 w4 x.
      processActions failing_env ''copyBefore'' (process_cwd failing_env) (cfg_copyBefore bare_config)
        (announce ''run copyBefore'' demo_world) = (Inr (), w1) \<and>
      processCopy (process_cwd failing_env) (tempDirPath failing_env bare_config (clock w1))
        (cfg_files bare_config) (announce ''run copy'' w1) = (Inr (), w2) \<and>
      processActions failing_env ''copyAfter'' (process_cwd failing_env) (cfg_copyAfter bare_config)
        (announce ''run copyAfter'' w2) = (Inr (), w3) \<and>
      processActions failing_env ''copyBefore'' (tempDirPath failing_env bare_config (clock w1))
        (cfg_packBefore bare_config) (announce ''run packBefore'' w3) = (Inr (), w4) \<and>
      processPack failing_env (tempDirPath failing_env bare_config (clock w1))
        (targetFilePath bare_config (clock w1)) (announce ''run pack'' w4) =
        (Inl (UncaughtException (FsError ''open'' EACCES ''/tmp/demo-20261001090507'')), x) \<and>
      processConfig failing_env bare_config demo_world =
        (Inl (UncaughtException (FsError ''open'' EACCES ''/tmp/demo-20261001090507'')), x))"
proof -
  have a: "announces stage_announcements (processConfig demo_env demo_config) demo_world \<and>
   (\<exists>w1 w2 w3 w4 w5 w6 w7.
        processActions demo_env ''copyBefore'' (process_cwd demo_env) (cfg_copyBefore demo_config)
          (announce ''run copyBefore'' demo_world) = (Inr (), w1)
      \<and> processCopy (process_cwd demo_env) (tempDirPath demo_env demo_config (clock w1))
          (cfg_files demo_config) (announce ''run copy'' w1) = (Inr (), w2)
      \<and> processActions demo_env ''copyAfter'' (process_cwd demo_env) (cfg_copyAfter demo_config)
          (announce ''run copyAfter'' w2) = (Inr (), w3)
      \<and> processActions demo_env ''copyBefore'' (tempDirPath demo_env demo_config (clock w1))
          (cfg_packBefore demo_config) (announce ''run packBefore'' w3) = (Inr (), w4)
      \<and> processPack demo_env (tempDirPath demo_env demo_config (clock w1))
          (targetFilePath demo_config (clock w1)) (announce ''run pack'' w4) = (Inr (), w5)
      \<and> processActions demo_env ''copyBefore'' (tempDirPath demo_env demo_config (clock w1))
          (cfg_packAfter demo_config) (announce ''run packAfter'' w5) = (Inr (), w6)
      \<and> process_chdir (process_cwd demo_env) w6 = (Inr (), w7)
      \<and> rmDirectoryRecursive (tempDirPath demo_env demo_config (clock w1)) w7 = (Inr (), demo_final)
      \<and> ''/out/demo.20261001090507.zip'' = targetFilePath demo_config (clock w1))"
    using stages_in_order [of demo_env demo_config demo_world, THEN conjunct1]
      stages_in_order [of demo_env demo_config demo_world, THEN conjunct2, THEN conjunct1]
      demo_run
    by blast
  have b: "\<exists>w1 w2 w3 w4 x.
      processActions failing_env ''copyBefore'' (process_cwd failing_env) (cfg_copyBefore bare_config)
        (announce ''run copyBefore'' demo_world) = (Inr (), w1) \<and>
      processCopy (process_cwd failing_env) (tempDirPath failing_env bare_config (clock w1))
        (cfg_files bare_config) (announce ''run copy'' w1) = (Inr (), w2) \<and>
      processActions failing_env ''copyAfter'' (process_cwd failing_env) (cfg_copyAfter bare_config)
        (announce ''run copyAfter'' w2) = (Inr (), w3) \<and>
      processActions failing_env ''copyBefore'' (tempDirPath failing_env bare_config (clock w1))
        (cfg_packBefore bare_config) (announce ''run packBefore'' w3) = (Inr (), w4) \<and>
      processPack failing_env (tempDirPath failing_env bare_config (clock w1))
        (targetFilePath bare_config (clock w1)) (announce ''run pack'' w4) =
        (Inl (UncaughtException (FsError ''open'' EACCES ''/tmp/demo-20261001090507'')), x) \<and>
      processConfig failing_env bare_config demo_world =
        (Inl (UncaughtException (FsError ''open'' EACCES ''/tmp/demo-20261001090507'')), x)"
    using stages_in_order [of failing_env bare_config demo_world, THEN conjunct2, THEN conjunct2,
        THEN conjunct2, THEN conjunct2] bare_stages
    by blast
  show ?thesis
    using a b by simp
qed

text \<open>
  The staging directory of a run need not be fresh. When the temporary directory has a
  directory with its name, the copy stage copies into it, next to what it holds; the
  archive has the file that was there; and the run removes the directory.
\<close>

theorem stale_staging_counterexample:
  "lookup (fsroot stale_world) [''tmp'', ''demo-20261001090507''] =
     Some (Dir [(''old.txt'', File ''old'')]) \<and>
   (\<exists>v. processCopy ''/proj'' ''/tmp/demo-20261001090507'' [''a.txt'', ''sub''] stale_world =
          (Inr (), v) \<and>
        lookup (fsroot v) [''tmp'', ''demo-20261001090507''] =
          Some (Dir [(''old.txt'', File ''old''), (''a.txt'', File ''hi''),
                     (''sub'', Dir [(''b.txt'', File ''x'')])])) \<and>
   processConfig demo_env demo_config stale_world =
     (Inr ''/out/demo.20261001090507.zip'', stale_final) \<and>
   lookup (fsroot stale_final) [''out'', ''demo.20261001090507.zip''] =
     Some (File ''PK old.txt a.txt sub'') \<and>
   lookup (fsroot stale_final) [''tmp'', ''demo-20261001090507''] = None"
proof -
  have a: "lookup (fsroot stale_world) [''tmp'', ''demo-20261001090507''] =
     Some (Dir [(''old.txt'', File ''old'')])"
    by (simp add: stale_world_def demo_world_def)
  have r: "fst (processCopy ''/proj'' ''/tmp/demo-20261001090507'' [''a.txt'', ''sub''] stale_world) =
          Inr ()"
    and l: "lookup (fsroot (snd (processCopy ''/proj'' ''/tmp/demo-20261001090507'' [''a.txt'', ''sub'']
           stale_world))) [''tmp'', ''demo-20261001090507''] =
          Some (Dir [(''old.txt'', File ''old''), (''a.txt'', File ''hi''),
                     (''sub'', Dir [(''b.txt'', File ''x'')])])"
    by (simp_all add: run_defs demo_defs stale_world_def
        cong: io_bind_weak_cong prod.case_cong_weak sum.case_cong_weak option.case_cong_weak
          node.case_cong_weak)
  have b: "\<exists>v. processCopy ''/proj'' ''/tmp/demo-20261001090507'' [''a.txt'', ''sub''] stale_world =
          (Inr (), v) \<and>
        lookup (fsroot v) [''tmp'', ''demo-20261001090507''] =
          Some (Dir [(''old.txt'', File ''old''), (''a.txt'', File ''hi''),
                     (''sub'', Dir [(''b.txt'', File ''x'')])])"
    using io_returns [of "processCopy ''/proj'' ''/tmp/demo-20261001090507'' [''a.txt'', ''sub'']"
        stale_world, OF r] l
    by (intro exI conjI)
  have c: "lookup (fsroot stale_final) [''out'', ''demo.20261001090507.zip''] =
     Some (File ''PK old.txt a.txt sub'')"
    and d: "lookup (fsroot stale_final) [''tmp'', ''demo-20261001090507''] = None"
    by (simp_all add: stale_final_def)
  show ?thesis
    using a b stale_run c d by (intro conjI)
qed




text \<open>
  The timestamp in the words of the specification: the year unpadded, then the calendar
  month, the day of the month, the hour, the minute and the second on two digits each.
\<close>

definition timestamp_as_specified :: "date_time \<Rightarrow> string" where
  "timestamp_as_specified t =
     int_toString (dt_year t) @
     padStart 2 CHR ''0'' (nat_toString (dt_month t)) @
     padStart 2 CHR ''0'' (nat_toString (dt_date t)) @
     padStart 2 CHR ''0'' (nat_toString (dt_hours t)) @
     padStart 2 CHR ''0'' (nat_toString (dt_minutes t)) @
     padStart 2 CHR ''0'' (nat_toString (dt_seconds t))"

text \<open>
  C2. The timestamp is read from the clock when the copyBefore stage has returned. Its
  fields are the year, then two digits each for \<^verbatim>\<open>getMonth()\<close>, \<^verbatim>\<open>getDay()\<close>, the hours, the
  minutes and the seconds: the month counted from 0 and the day of the week, where the
  claim has the calendar month and the day of the month. On Monday 2 November 2026 at
  09:05:07 the code builds 20261001090507 and the specified timestamp is 20261102090507.
  The same string is in the name of the staging directory and in the name of the archive.
\<close>

theorem timestamp_divergence:
  "timeText demo_clock = ''20261001090507'' \<and>
   timestamp_as_specified demo_clock = ''20261102090507'' \<and>
   getMonth demo_clock = 10 \<and> getDay demo_clock = 1 \<and>
   tempDirName config t = cfg_name config @ ''-'' @ timeText t \<and>
   targetFileName config t = cfg_name config @ ''.'' @ timeText t @ ''.zip''"
  by (simp add: demo_timeText tempDirName_def targetFileName_def)
     (simp add: timestamp_as_specified_def demo_clock_def getMonth_def getDay_def int_toString_def
        padStart_def nat_toString.simps digit_char_def)

text \<open>
  C4. An action whose tag is neither \<^verbatim>\<open>delete\<close> nor \<^verbatim>\<open>command\<close> is logged as a warning with
  the stage name that \<^verbatim>\<open>processConfig\<close> passes, and the loop goes on. For the packBefore and
  packAfter stages that name is \<^verbatim>\<open>copyBefore\<close> (lines 68 and 74): in the run of the scenario
  the action \<^verbatim>\<open>["noop"]\<close> of packBefore is reported as an action of copyBefore.
\<close>

theorem unknown_action_stage_name:
  "cfg_packBefore demo_config = [[''noop'']] \<and>
   fst (processConfig demo_env demo_config demo_world) = Inr ''/out/demo.20261001090507.zip'' \<and>
   (MainLogger, WARN, Text (''unknown action '' @ quoted ''noop'' @ '' in copyBefore''))
     \<in> set (logs (snd (processConfig demo_env demo_config demo_world))) \<and>
   (MainLogger, WARN, Text (''unknown action '' @ quoted ''noop'' @ '' in packBefore''))
     \<notin> set (logs (snd (processConfig demo_env demo_config demo_world)))"
  by (simp add: demo_run demo_final_def quoted_def) (simp add: demo_config_def)

subsection \<open>The top level\<close>

text \<open>
  The entries of the top level: an error of the main logger, or its message that the
  archive is packed.
\<close>

definition final_entry :: "log_entry \<Rightarrow> bool" where
  "final_entry x =
     (fst x = MainLogger \<and>
      (fst (snd x) = ERROR \<or>
       (fst (snd x) = INFO \<and>
        (case snd (snd x) of Text s \<Rightarrow> take 10 s = ''packed on '' | Thrown err \<Rightarrow> False))))"

lemma stage_entry_not_final: "stage_entry x \<Longrightarrow> \<not> final_entry x"
  by (auto simp: stage_entry_def final_entry_def)

lemma announcement_not_final: "x \<in> set stage_announcements \<Longrightarrow> \<not> final_entry x"
  by (auto simp: stage_announcements_def final_entry_def)

lemma quiet_no_final:
  assumes "quiet m w"
  shows "\<exists>new. logs (snd (m w)) = logs w @ new \<and> filter final_entry new = []"
proof -
  from assms obtain new where n: "logs (snd (m w)) = logs w @ new" "list_all stage_entry new"
    by (auto simp: quiet_def keeps_def log_ext_def)
  have "filter final_entry new = []"
    using n(2) by (auto simp: filter_empty_conv list_all_iff stage_entry_not_final)
  with n(1) show ?thesis by blast
qed

lemma processConfig_no_final:
  "\<exists>new. logs (snd (processConfig e config w)) = logs w @ new \<and> filter final_entry new = []"
proof -
  from processConfig_announces [of e config w] obtain new where
    n: "logs (snd (processConfig e config w)) = logs w @ new"
       "prefix (filter (\<lambda>x. \<not> stage_entry x) new) stage_announcements"
    by (auto simp: announces_def)
  have "\<not> final_entry x" if "x \<in> set new" for x
  proof (cases "stage_entry x")
    case True
    then show ?thesis by (rule stage_entry_not_final)
  next
    case False
    then have "x \<in> set (filter (\<lambda>x. \<not> stage_entry x) new)" using that by simp
    then have "x \<in> set stage_announcements" using set_mono_prefix [OF n(2)] by blast
    then show ?thesis by (rule announcement_not_final)
  qed
  then have "filter final_entry new = []" by (auto simp: filter_empty_conv)
  with n(1) show ?thesis by blast
qed

lemma quiet_readConfig: "quiet (readConfig e n) w"
  unfolding readConfig_def Let_def
  by (auto intro!: quiet_bind quiet_prims split: option.splits)

lemma packed_is_final: "final_entry (MainLogger, INFO, Text (''packed on '' @ quoted p))"
  by (simp add: final_entry_def)

text \<open>
  C5, as amended. When \<^verbatim>\<open>main\<close> settles, the process logs one entry at the top level and
  ends with the exit code 0: the message with the path of the archive when \<^verbatim>\<open>main\<close>
  returned, the error when \<^verbatim>\<open>main\<close> rejected. Nothing sets another exit code. An error that
  the archiver emits is not a rejection of \<^verbatim>\<open>main\<close>: the listener of lines 185-188 throws
  it where no promise takes it, the handler of line 28 never sees it, and the process ends
  with the exit code 1 and no entry at the top level; so does an error of the write
  stream that Node throws. And when the archive is never finalized \<^verbatim>\<open>main\<close> stays pending
  and nothing is logged at the top level: the process ends with the exit code 0 when
  nothing is left to run, and keeps running otherwise. The last part of the statement is
  the pack stage by the answer of the archiver: the first error among its events is the
  exception; without one, the stage ends as the wait for \<^verbatim>\<open>finalize\<close> does.
\<close>

theorem top_level_outcomes:
  "(\<exists>new. logs (fst (script e w)) = logs w @ new \<and>
      (case fst (main e w) of
         Inr u \<Rightarrow>
           snd (script e w) = ExitCode 0 \<and>
           (\<exists>p. filter final_entry new = [(MainLogger, INFO, Text (''packed on '' @ quoted p))])
       | Inl err \<Rightarrow>
           (case err of
              UncaughtException x \<Rightarrow>
                snd (script e w) = ExitCode 1 \<and> filter final_entry new = []
            | NeverSettles \<Rightarrow>
                snd (script e w) = ExitCode 0 \<and> filter final_entry new = []
            | Stalled \<Rightarrow>
                snd (script e w) = KeepsRunning \<and> filter final_entry new = []
            | _ \<Rightarrow>
                snd (script e w) = ExitCode 0 \<and>
                filter final_entry new = [(MainLogger, ERROR, Thrown err)]))) \<and>
   (\<forall>staging archive (v::world).
      fst (processPack e staging archive v) =
        (case first_failure (ar_events (archiver e staging archive (fsroot v) (cwd v))) of
           Some err \<Rightarrow> Inl (UncaughtException err)
         | None \<Rightarrow>
             (case ar_settles (archiver e staging archive (fsroot v) (cwd v)) of
                Resolves \<Rightarrow> Inr ()
              | Rejects err \<Rightarrow> Inl err
              | Crashes err \<Rightarrow> Inl (UncaughtException err)
              | Never \<Rightarrow> Inl NeverSettles
              | Stalls \<Rightarrow> Inl Stalled)))"
proof (intro conjI allI impI)
  obtain r v where m: "main e w = (r, v)"
    by (cases "main e w")
  obtain rc vc where rc: "readConfig e configFileName w = (rc, vc)"
    by (cases "readConfig e configFileName w")
  from quiet_no_final [OF quiet_readConfig, of e configFileName w] rc obtain n1 where
    n1: "logs vc = logs w @ n1" "filter final_entry n1 = []"
    by auto
  have "\<exists>n. logs v = logs w @ n \<and>
      (case r of
         Inl err \<Rightarrow> filter final_entry n = []
       | Inr u \<Rightarrow> (\<exists>p. filter final_entry n =
                      [(MainLogger, INFO, Text (''packed on '' @ quoted p))]))"
  proof (cases rc)
    case (Inl err)
    then have "main e w = (Inl err, vc)"
      using rc by (simp add: main_def io_bind_def)
    then show ?thesis using m n1 by auto
  next
    case (Inr config)
    obtain r2 v2 where pc: "processConfig e config vc = (r2, v2)"
      by (cases "processConfig e config vc")
    from processConfig_no_final [of e config vc] pc obtain n2 where
      n2: "logs v2 = logs vc @ n2" "filter final_entry n2 = []"
      by auto
    show ?thesis
    proof (cases r2)
      case (Inl err)
      then have "main e w = (Inl err, v2)"
        using rc Inr pc by (simp add: main_def io_bind_def)
      then show ?thesis using m n1 n2 by auto
    next
      case (Inr p)
      then have "main e w = (Inr (), v2\<lparr>logs := logs v2 @
          [(MainLogger, INFO, Text (''packed on '' @ quoted p))]\<rparr>)"
        using rc \<open>rc = Inr config\<close> pc by (simp add: main_def io_bind_def log_to_def)
      then show ?thesis using m n1 n2 packed_is_final [of p] by auto
    qed
  qed
  then obtain n where n: "logs v = logs w @ n"
    and f: "case r of
         Inl err \<Rightarrow> filter final_entry n = []
       | Inr u \<Rightarrow> (\<exists>p. filter final_entry n =
                      [(MainLogger, INFO, Text (''packed on '' @ quoted p))])"
    by blast
  show "\<exists>new. logs (fst (script e w)) = logs w @ new \<and>
      (case fst (main e w) of
         Inr u \<Rightarrow>
           snd (script e w) = ExitCode 0 \<and>
           (\<exists>p. filter final_entry new = [(MainLogger, INFO, Text (''packed on '' @ quoted p))])
       | Inl err \<Rightarrow>
           (case err of
              UncaughtException x \<Rightarrow>
                snd (script e w) = ExitCode 1 \<and> filter final_entry new = []
            | NeverSettles \<Rightarrow>
                snd (script e w) = ExitCode 0 \<and> filter final_entry new = []
            | Stalled \<Rightarrow>
                snd (script e w) = KeepsRunning \<and> filter final_entry new = []
            | _ \<Rightarrow>
                snd (script e w) = ExitCode 0 \<and>
                filter final_entry new = [(MainLogger, ERROR, Thrown err)]))"
  proof (cases r)
    case (Inr u)
    then show ?thesis
      using m n f by (simp add: script_def)
  next
    case (Inl err)
    then have g: "filter final_entry n = []" using f by simp
    show ?thesis
      using m n g Inl
      by (cases err) (simp_all add: script_def log_to_def final_entry_def)
  qed
next
  fix staging archive and v :: world
  show "fst (processPack e staging archive v) =
        (case first_failure (ar_events (archiver e staging archive (fsroot v) (cwd v))) of
           Some err \<Rightarrow> Inl (UncaughtException err)
         | None \<Rightarrow>
             (case ar_settles (archiver e staging archive (fsroot v) (cwd v)) of
                Resolves \<Rightarrow> Inr ()
              | Rejects err \<Rightarrow> Inl err
              | Crashes err \<Rightarrow> Inl (UncaughtException err)
              | Never \<Rightarrow> Inl NeverSettles
              | Stalls \<Rightarrow> Inl Stalled))"
    by (simp add: processPack_run pack_result_def)
qed

text \<open>
  Without \<^verbatim>\<open>zmpack.json\<close> in the project root \<^verbatim>\<open>main\<close> rejects, the handler logs the error,
  and the exit code is 0.
\<close>

theorem exit_code_counterexample:
  "fst (main demo_env (demo_world\<lparr>fsroot := Dir [(''proj'', Dir [])]\<rparr>)) = Inl ConfigMissing \<and>
   script demo_env (demo_world\<lparr>fsroot := Dir [(''proj'', Dir [])]\<rparr>) =
     (demo_world\<lparr>fsroot := Dir [(''proj'', Dir [])],
                  logs := [(MainLogger, ERROR, Thrown ConfigMissing)]\<rparr>, ExitCode 0)"
  by (simp add: run_defs demo_defs
      cong: io_bind_weak_cong prod.case_cong_weak sum.case_cong_weak option.case_cong_weak
        node.case_cong_weak)

text \<open>
  With an archiver that emits an error the stages up to the pack stage return, the pack
  stage is ended by the exception, and so is the process. With one that never finalizes
  \<^verbatim>\<open>main\<close> stays pending.
\<close>

lemma failing_run:
  "fst (main failing_env demo_world) = Inl (UncaughtException (FsError ''open'' EACCES ''/tmp/demo-20261001090507''))"
  by (simp add: run_defs demo_defs demo_timeText failing_env_def bare_config_def
      cong: io_bind_weak_cong prod.case_cong_weak sum.case_cong_weak option.case_cong_weak
        node.case_cong_weak)

lemma stuck_run: "fst (main stuck_env demo_world) = Inl NeverSettles"
  by (simp add: run_defs demo_defs demo_timeText stuck_env_def failing_env_def bare_config_def
      cong: io_bind_weak_cong prod.case_cong_weak sum.case_cong_weak option.case_cong_weak
        node.case_cong_weak)

theorem top_level_outcomes_witness:
  "(\<exists>new. logs (fst (script demo_env (demo_world\<lparr>fsroot := Dir [(''proj'', Dir [])]\<rparr>))) =
           logs (demo_world\<lparr>fsroot := Dir [(''proj'', Dir [])]\<rparr>) @ new \<and>
          snd (script demo_env (demo_world\<lparr>fsroot := Dir [(''proj'', Dir [])]\<rparr>)) = ExitCode 0 \<and>
          filter final_entry new = [(MainLogger, ERROR, Thrown ConfigMissing)]) \<and>
   (\<exists>new. logs (fst (script failing_env demo_world)) = logs demo_world @ new \<and>
          snd (script failing_env demo_world) = ExitCode 1 \<and> filter final_entry new = []) \<and>
   (\<exists>new. logs (fst (script stuck_env demo_world)) = logs demo_world @ new \<and>
          snd (script stuck_env demo_world) = ExitCode 0 \<and> filter final_entry new = []) \<and>
   fst (processPack failing_env ''/tmp/st'' ''/out/a.zip'' demo_world) =
     Inl (UncaughtException (FsError ''open'' EACCES ''/tmp/st''))"
proof -
  have m: "fst (main demo_env (demo_world\<lparr>fsroot := Dir [(''proj'', Dir [])]\<rparr>)) = Inl ConfigMissing"
    by (simp add: run_defs demo_defs
      cong: io_bind_weak_cong prod.case_cong_weak sum.case_cong_weak option.case_cong_weak
        node.case_cong_weak)
  have a: "archiver failing_env ''/tmp/st'' ''/out/a.zip'' (fsroot demo_world) (cwd demo_world) =
      \<lparr>ar_events = [Failure (FsError ''open'' EACCES ''/tmp/st'')], ar_written = Some ''PK'',
       ar_settles = Never\<rparr>"
    by (simp add: failing_env_def)
  have 1: "\<exists>new. logs (fst (script demo_env (demo_world\<lparr>fsroot := Dir [(''proj'', Dir [])]\<rparr>))) =
           logs (demo_world\<lparr>fsroot := Dir [(''proj'', Dir [])]\<rparr>) @ new \<and>
          snd (script demo_env (demo_world\<lparr>fsroot := Dir [(''proj'', Dir [])]\<rparr>)) = ExitCode 0 \<and>
          filter final_entry new = [(MainLogger, ERROR, Thrown ConfigMissing)]"
    using top_level_outcomes [of demo_env "demo_world\<lparr>fsroot := Dir [(''proj'', Dir [])]\<rparr>",
        THEN conjunct1]
    by (simp add: m)
  have 2: "\<exists>new. logs (fst (script failing_env demo_world)) = logs demo_world @ new \<and>
          snd (script failing_env demo_world) = ExitCode 1 \<and> filter final_entry new = []"
    using top_level_outcomes [of failing_env demo_world, THEN conjunct1]
    by (simp add: failing_run)
  have 3: "fst (processPack failing_env ''/tmp/st'' ''/out/a.zip'' demo_world) =
     Inl (UncaughtException (FsError ''open'' EACCES ''/tmp/st''))"
    using top_level_outcomes [of failing_env demo_world, THEN conjunct2, THEN spec, THEN spec,
        THEN spec, of "''/tmp/st''" "''/out/a.zip''" demo_world]
    by (simp add: a)
  have 4: "\<exists>new. logs (fst (script stuck_env demo_world)) = logs demo_world @ new \<and>
          snd (script stuck_env demo_world) = ExitCode 0 \<and> filter final_entry new = []"
    using top_level_outcomes [of stuck_env demo_world, THEN conjunct1]
    by (simp add: stuck_run)
  show ?thesis
    using 1 2 4 3 by (intro conjI)
qed

subsection \<open>Failures end the run\<close>

lemma for_of_fails: "f a w = (Inl err, v) \<Longrightarrow> for_of (a # rest) f w = (Inl err, v)"
  by simp

lemma for_of_continues: "f a w = (Inr (), v) \<Longrightarrow> for_of (a # rest) f w = for_of rest f v"
  by simp

lemma for_of_append:
  "for_of xs f w = (Inr (), v) \<Longrightarrow> for_of (xs @ ys) f w = for_of ys f v"
  by (induction xs arbitrary: w) (auto split: prod.splits sum.splits)

lemma processConfig_fails_copyBefore:
  assumes "processActions e ''copyBefore'' (process_cwd e) (cfg_copyBefore config)
             (announce ''run copyBefore'' w) = (Inl err, v)"
  shows "processConfig e config w = (Inl err, v)"
  using assms by (simp add: processConfig_def io_bind_def log_to_def announce_def)

lemma processConfig_fails_copyAfter:
  assumes "processActions e ''copyBefore'' (process_cwd e) (cfg_copyBefore config)
             (announce ''run copyBefore'' w) = (Inr (), w1)"
    and "processCopy (process_cwd e) (tempDirPath e config (clock w1)) (cfg_files config)
             (announce ''run copy'' w1) = (Inr (), w2)"
    and "processActions e ''copyAfter'' (process_cwd e) (cfg_copyAfter config)
             (announce ''run copyAfter'' w2) = (Inl err, v)"
  shows "processConfig e config w = (Inl err, v)"
  using assms by (simp add: processConfig_def io_bind_def log_to_def announce_def new_Date_def)

lemma processConfig_fails_packBefore:
  assumes "processActions e ''copyBefore'' (process_cwd e) (cfg_copyBefore config)
             (announce ''run copyBefore'' w) = (Inr (), w1)"
    and "processCopy (process_cwd e) (tempDirPath e config (clock w1)) (cfg_files config)
             (announce ''run copy'' w1) = (Inr (), w2)"
    and "processActions e ''copyAfter'' (process_cwd e) (cfg_copyAfter config)
             (announce ''run copyAfter'' w2) = (Inr (), w3)"
    and "processActions e ''copyBefore'' (tempDirPath e config (clock w1)) (cfg_packBefore config)
             (announce ''run packBefore'' w3) = (Inl err, v)"
  shows "processConfig e config w = (Inl err, v)"
  using assms by (simp add: processConfig_def io_bind_def log_to_def announce_def new_Date_def)

lemma processConfig_fails_packAfter:
  assumes "processActions e ''copyBefore'' (process_cwd e) (cfg_copyBefore config)
             (announce ''run copyBefore'' w) = (Inr (), w1)"
    and "processCopy (process_cwd e) (tempDirPath e config (clock w1)) (cfg_files config)
             (announce ''run copy'' w1) = (Inr (), w2)"
    and "processActions e ''copyAfter'' (process_cwd e) (cfg_copyAfter config)
             (announce ''run copyAfter'' w2) = (Inr (), w3)"
    and "processActions e ''copyBefore'' (tempDirPath e config (clock w1)) (cfg_packBefore config)
             (announce ''run packBefore'' w3) = (Inr (), w4)"
    and "processPack e (tempDirPath e config (clock w1)) (targetFilePath config (clock w1))
             (announce ''run pack'' w4) = (Inr (), w5)"
    and "processActions e ''copyBefore'' (tempDirPath e config (clock w1)) (cfg_packAfter config)
             (announce ''run packAfter'' w5) = (Inl err, v)"
  shows "processConfig e config w = (Inl err, v)"
  using assms by (simp add: processConfig_def io_bind_def log_to_def announce_def new_Date_def)

lemma processConfig_fails_cleanup:
  assumes "processActions e ''copyBefore'' (process_cwd e) (cfg_copyBefore config)
             (announce ''run copyBefore'' w) = (Inr (), w1)"
    and "processCopy (process_cwd e) (tempDirPath e config (clock w1)) (cfg_files config)
             (announce ''run copy'' w1) = (Inr (), w2)"
    and "processActions e ''copyAfter'' (process_cwd e) (cfg_copyAfter config)
             (announce ''run copyAfter'' w2) = (Inr (), w3)"
    and "processActions e ''copyBefore'' (tempDirPath e config (clock w1)) (cfg_packBefore config)
             (announce ''run packBefore'' w3) = (Inr (), w4)"
    and "processPack e (tempDirPath e config (clock w1)) (targetFilePath config (clock w1))
             (announce ''run pack'' w4) = (Inr (), w5)"
    and "processActions e ''copyBefore'' (tempDirPath e config (clock w1)) (cfg_packAfter config)
             (announce ''run packAfter'' w5) = (Inr (), w6)"
    and "process_chdir (process_cwd e) w6 = (Inr (), w7)"
    and "rmDirectoryRecursive (tempDirPath e config (clock w1)) w7 = (Inl err, v)"
  shows "processConfig e config w = (Inl err, v)"
  using assms by (simp add: processConfig_def io_bind_def log_to_def announce_def new_Date_def)

lemma processActions_fails:
  assumes "process_chdir workingPath
             (w\<lparr>logs := logs w @ [(ActionLogger, TRACE, Text (''chdir to '' @ quoted workingPath))]\<rparr>)
           = (Inr (), w0)"
    and "for_of before (runAction e stageName workingPath) w0 = (Inr (), w1)"
    and "runAction e stageName workingPath action w1 = (Inl err, v)"
  shows "processActions e stageName workingPath (before @ action # rest) w = (Inl err, v)"
  using assms for_of_append [OF assms(2), of "action # rest"]
  by (simp add: processActions_def io_bind_def log_to_def)

lemma path_lookup_same:
  "fsroot v = fsroot w \<Longrightarrow> cwd v = cwd w \<Longrightarrow> path_lookup p v = path_lookup p w"
  by (simp add: path_lookup_def resolve_def)

lemma path_lookup_logs [simp]: "path_lookup p (w\<lparr>logs := l\<rparr>) = path_lookup p w"
  by (rule path_lookup_same) simp_all

lemma path_lookup_console [simp]: "path_lookup p (w\<lparr>console := l\<rparr>) = path_lookup p w"
  by (rule path_lookup_same) simp_all

text \<open>
  C7. A delete action whose target does not exist returns without an error and without a
  warning: it leaves the world as it is but for the INFO entry \<^verbatim>\<open>DELETE "itemName"\<close> of
  the action logger, and the loop of the stage goes on with the next action.
\<close>

theorem delete_missing_is_noop:
  assumes "fst (fsExist (Path_join workingPath itemName) w) = Inr False"
  shows "runAction e stageName workingPath (''delete'' # itemName # extra) w =
           (Inr (), w\<lparr>logs := logs w @ [(ActionLogger, INFO, Text (''DELETE '' @ quoted itemName))]\<rparr>)
       \<and> for_of ((''delete'' # itemName # extra) # rest) (runAction e stageName workingPath) w =
         for_of rest (runAction e stageName workingPath)
           (w\<lparr>logs := logs w @ [(ActionLogger, INFO, Text (''DELETE '' @ quoted itemName))]\<rparr>)"
proof -
  have ex: "fsExist (Path_join workingPath itemName) v = (Inr False, v)"
    if "fsroot v = fsroot w" "cwd v = cwd w" for v
    using assms path_lookup_same [OF that] by (simp add: fsExist_def)
  have "runAction e stageName workingPath (''delete'' # itemName # extra) w =
           (Inr (), w\<lparr>logs := logs w @ [(ActionLogger, INFO, Text (''DELETE '' @ quoted itemName))]\<rparr>)"
    by (simp add: runAction_def Let_def at_index_def js_string_def io_bind_def log_to_def ex
        io_return_def)
  then show ?thesis by simp
qed

theorem delete_missing_is_noop_witness:
  "fst (fsExist (Path_join ''/proj'' ''stale.log'') demo_world) = Inr False \<and>
   runAction demo_env ''copyBefore'' ''/proj'' [''delete'', ''stale.log''] demo_world =
     (Inr (), demo_world\<lparr>logs := logs demo_world @
        [(ActionLogger, INFO, Text (''DELETE '' @ quoted ''stale.log''))]\<rparr>)"
proof -
  have a: "fst (fsExist (Path_join ''/proj'' ''stale.log'') demo_world) = Inr False"
    by (simp add: run_defs demo_defs)
  show ?thesis
    using delete_missing_is_noop [OF a, of demo_env "''copyBefore''" "[]"] a by simp
qed

text \<open>
  C8. A command whose shell cannot be spawned or exits with a code other than 0 makes the
  action throw; the loop of the stage ends there, whatever actions follow, and the stage
  throws; and a stage of actions that throws makes \<^verbatim>\<open>processConfig\<close> throw the same error
  in the world the failing action left, so that no later stage runs.
\<close>

theorem failing_command_halts:
  assumes "shell e commandLine workingPath (fsroot w) (clock w) = SpawnError \<or>
           (\<exists>code out err fs t. shell e commandLine workingPath (fsroot w) (clock w)
              = Exited (Suc code) out err fs t)"
  shows "\<exists>v. runAction e stageName workingPath [''command'', commandLine] w =
               (Inl (ShellCommandFailure commandLine), v)
     \<and> fsroot v = (case shell e commandLine workingPath (fsroot w) (clock w) of
                      SpawnError \<Rightarrow> fsroot w | Exited code out err fs t \<Rightarrow> fs)
     \<and> logs v = logs w @ [(ActionLogger, INFO, Text (''COMMAND '' @ quoted commandLine))]
     \<and> console v = console w
     \<and> (\<forall>rest. for_of ([''command'', commandLine] # rest) (runAction e stageName workingPath) w =
               (Inl (ShellCommandFailure commandLine), v))
     \<and> (\<forall>w0 w1 before rest.
           process_chdir workingPath
             (w0\<lparr>logs := logs w0 @ [(ActionLogger, TRACE, Text (''chdir to '' @ quoted workingPath))]\<rparr>)
             = (Inr (), w1) \<and>
           for_of before (runAction e stageName workingPath) w1 = (Inr (), w) \<longrightarrow>
           processActions e stageName workingPath (before @ [''command'', commandLine] # rest) w0
             = (Inl (ShellCommandFailure commandLine), v))
     \<and> (\<forall>config u err x.
           processActions e ''copyBefore'' (process_cwd e) (cfg_copyBefore config)
             (announce ''run copyBefore'' u) = (Inl err, x) \<longrightarrow>
           processConfig e config u = (Inl err, x))
     \<and> (\<forall>config u w1 w2 err x.
           processActions e ''copyBefore'' (process_cwd e) (cfg_copyBefore config)
             (announce ''run copyBefore'' u) = (Inr (), w1) \<and>
           processCopy (process_cwd e) (tempDirPath e config (clock w1)) (cfg_files config)
             (announce ''run copy'' w1) = (Inr (), w2) \<and>
           processActions e ''copyAfter'' (process_cwd e) (cfg_copyAfter config)
             (announce ''run copyAfter'' w2) = (Inl err, x) \<longrightarrow>
           processConfig e config u = (Inl err, x))
     \<and> (\<forall>config u w1 w2 w3 err x.
           processActions e ''copyBefore'' (process_cwd e) (cfg_copyBefore config)
             (announce ''run copyBefore'' u) = (Inr (), w1) \<and>
           processCopy (process_cwd e) (tempDirPath e config (clock w1)) (cfg_files config)
             (announce ''run copy'' w1) = (Inr (), w2) \<and>
           processActions e ''copyAfter'' (process_cwd e) (cfg_copyAfter config)
             (announce ''run copyAfter'' w2) = (Inr (), w3) \<and>
           processActions e ''copyBefore'' (tempDirPath e config (clock w1)) (cfg_packBefore config)
             (announce ''run packBefore'' w3) = (Inl err, x) \<longrightarrow>
           processConfig e config u = (Inl err, x))
     \<and> (\<forall>config u w1 w2 w3 w4 w5 err x.
           processActions e ''copyBefore'' (process_cwd e) (cfg_copyBefore config)
             (announce ''run copyBefore'' u) = (Inr (), w1) \<and>
           processCopy (process_cwd e) (tempDirPath e config (clock w1)) (cfg_files config)
             (announce ''run copy'' w1) = (Inr (), w2) \<and>
           processActions e ''copyAfter'' (process_cwd e) (cfg_copyAfter config)
             (announce ''run copyAfter'' w2) = (Inr (), w3) \<and>
           processActions e ''copyBefore'' (tempDirPath e config (clock w1)) (cfg_packBefore config)
             (announce ''run packBefore'' w3) = (Inr (), w4) \<and>
           processPack e (tempDirPath e config (clock w1)) (targetFilePath config (clock w1))
             (announce ''run pack'' w4) = (Inr (), w5) \<and>
           processActions e ''copyBefore'' (tempDirPath e config (clock w1)) (cfg_packAfter config)
             (announce ''run packAfter'' w5) = (Inl err, x) \<longrightarrow>
           processConfig e config u = (Inl err, x))"
proof -
  let ?w = "w\<lparr>logs := logs w @ [(ActionLogger, INFO, Text (''COMMAND '' @ quoted commandLine))]\<rparr>"
  obtain v where v: "childProcessExec e commandLine workingPath ?w = (Inl (ShellCommandFailure commandLine), v)"
    and f: "fsroot v = (case shell e commandLine workingPath (fsroot w) (clock w) of
                      SpawnError \<Rightarrow> fsroot w | Exited code out err fs t \<Rightarrow> fs)"
    and l: "logs v = logs ?w" and c: "console v = console w"
    using assms by (auto simp: childProcessExec_def)
  have r: "runAction e stageName workingPath [''command'', commandLine] w =
               (Inl (ShellCommandFailure commandLine), v)"
    using v by (simp add: runAction_def Let_def at_index_def js_string_def io_bind_def log_to_def)
  have p: "\<forall>w0 w1 before rest.
           process_chdir workingPath
             (w0\<lparr>logs := logs w0 @ [(ActionLogger, TRACE, Text (''chdir to '' @ quoted workingPath))]\<rparr>)
             = (Inr (), w1) \<and>
           for_of before (runAction e stageName workingPath) w1 = (Inr (), w) \<longrightarrow>
           processActions e stageName workingPath (before @ [''command'', commandLine] # rest) w0
             = (Inl (ShellCommandFailure commandLine), v)"
    using processActions_fails [OF _ _ r] by blast
  have rest: "\<forall>rest. for_of ([''command'', commandLine] # rest) (runAction e stageName workingPath) w =
               (Inl (ShellCommandFailure commandLine), v)"
    using r by simp
  show ?thesis
    apply (intro exI [of _ v] conjI r f c p rest)
        apply (simp add: l)
       apply (blast intro: processConfig_fails_copyBefore)
      apply (blast intro: processConfig_fails_copyAfter)
     apply (blast intro: processConfig_fails_packBefore)
    apply (blast intro: processConfig_fails_packAfter)
    done
qed

theorem failing_command_halts_witness:
  "shell demo_env ''false'' ''/proj'' (fsroot demo_world) (clock demo_world) =
     Exited (Suc 0) [] [] (fsroot demo_world) (clock demo_world) \<and>
   (\<exists>v. runAction demo_env ''copyAfter'' ''/proj'' [''command'', ''false''] demo_world =
               (Inl (ShellCommandFailure ''false''), v)
     \<and> fsroot v = fsroot demo_world
     \<and> logs v = logs demo_world @ [(ActionLogger, INFO, Text (''COMMAND '' @ quoted ''false''))]
     \<and> console v = console demo_world
     \<and> for_of [[''command'', ''false''], [''command'', ''true'']]
          (runAction demo_env ''copyAfter'' ''/proj'') demo_world =
               (Inl (ShellCommandFailure ''false''), v))"
proof -
  have a: "shell demo_env ''false'' ''/proj'' (fsroot demo_world) (clock demo_world) =
     Exited (Suc 0) [] [] (fsroot demo_world) (clock demo_world)"
    by (simp add: demo_env_def)
  then have "shell demo_env ''false'' ''/proj'' (fsroot demo_world) (clock demo_world) = SpawnError \<or>
           (\<exists>code out err fs t. shell demo_env ''false'' ''/proj'' (fsroot demo_world) (clock demo_world)
              = Exited (Suc code) out err fs t)"
    by blast
  from failing_command_halts [OF this, of "''copyAfter''"] show ?thesis
  proof (elim exE conjE)
    fix v
    assume r: "runAction demo_env ''copyAfter'' ''/proj'' [''command'', ''false''] demo_world =
               (Inl (ShellCommandFailure ''false''), v)"
      and f: "fsroot v = (case shell demo_env ''false'' ''/proj'' (fsroot demo_world) (clock demo_world) of
                      SpawnError \<Rightarrow> fsroot demo_world | Exited code out err fs t \<Rightarrow> fs)"
      and l: "logs v = logs demo_world @ [(ActionLogger, INFO, Text (''COMMAND '' @ quoted ''false''))]"
      and c: "console v = console demo_world"
      and rest: "\<forall>rest. for_of ([''command'', ''false''] # rest)
                 (runAction demo_env ''copyAfter'' ''/proj'') demo_world =
               (Inl (ShellCommandFailure ''false''), v)"
    have "fsroot v = fsroot demo_world" using f by (simp add: a)
    then show ?thesis
      using a r l c rest [THEN spec, of "[[''command'', ''true'']]"]
      by (intro conjI exI [of _ v]) assumption+
  qed
qed

text \<open>
  C9. A copy source that is neither a file nor a directory: at the top level
  (\<^verbatim>\<open>processCopy\<close>) the item is skipped with a warning of the copy logger, and inside
  \<^verbatim>\<open>copyDirectory\<close> the entry is skipped with no log at all; neither throws.
\<close>

theorem unsupported_copy_source:
  "(fst (fsExist (Path_join workingPath itemName) w) = Inr True \<and>
    fst (fsStat (Path_join workingPath itemName) w) = Inr KOther \<longrightarrow>
    copyItem workingPath targetPath itemName w =
      (Inr (), w\<lparr>logs := logs w @
         [(CopyLogger, WARN, Text (''item '' @ quoted (Path_join workingPath itemName) @
            '' is not either a file or a directory''))]\<rparr>)) \<and>
   copyDirectory sourcePath targetPath =
     io_bind (fsExist targetPath) (\<lambda>targetExists.
     io_bind (if \<not> targetExists then fsMkdir targetPath else io_return ()) (\<lambda>u.
     io_bind (fsReaddir sourcePath) (\<lambda>files.
     for_of files (copyEntry sourcePath targetPath)))) \<and>
   (fst (fsStat (Path_join sourcePath itemName) w) = Inr KOther \<longrightarrow>
    copyEntry sourcePath targetPath itemName w = (Inr (), w))"
proof -
  have st: "fsStat p w = (fst (fsStat p w), w)" for p
    by (simp add: fsStat_def split: sum.splits)
  have ex: "fsExist p w = (fst (fsExist p w), w)" for p
    by (simp add: fsExist_def)
  have 1: "copyItem workingPath targetPath itemName w =
      (Inr (), w\<lparr>logs := logs w @
         [(CopyLogger, WARN, Text (''item '' @ quoted (Path_join workingPath itemName) @
            '' is not either a file or a directory''))]\<rparr>)"
    if "fst (fsExist (Path_join workingPath itemName) w) = Inr True"
      and "fst (fsStat (Path_join workingPath itemName) w) = Inr KOther"
    using that st [of "Path_join workingPath itemName"] ex [of "Path_join workingPath itemName"]
    by (simp add: copyItem_def Let_def io_bind_def isFile_def isDirectory_def log_to_def)
  have 2: "copyEntry sourcePath targetPath itemName w = (Inr (), w)"
    if "fst (fsStat (Path_join sourcePath itemName) w) = Inr KOther"
    using that st [of "Path_join sourcePath itemName"]
    by (simp add: copyEntry_def io_bind_def isFile_def isDirectory_def io_return_def)
  show ?thesis
    using 1 2 copyDirectory_unfold [of sourcePath targetPath] by blast
qed

definition fifo_world :: world where
  "fifo_world = demo_world\<lparr>fsroot := Dir [(''proj'', Dir [(''fifo'', Other)]), (''tmp'', Dir [])]\<rparr>"

theorem unsupported_copy_source_witness:
  "fst (fsExist (Path_join ''/proj'' ''fifo'') fifo_world) = Inr True \<and>
   fst (fsStat (Path_join ''/proj'' ''fifo'') fifo_world) = Inr KOther \<and>
   copyItem ''/proj'' ''/tmp'' ''fifo'' fifo_world =
      (Inr (), fifo_world\<lparr>logs := logs fifo_world @
         [(CopyLogger, WARN, Text (''item '' @ quoted (Path_join ''/proj'' ''fifo'') @
            '' is not either a file or a directory''))]\<rparr>) \<and>
   copyEntry ''/proj'' ''/tmp'' ''fifo'' fifo_world = (Inr (), fifo_world)"
proof -
  have a: "fst (fsExist (Path_join ''/proj'' ''fifo'') fifo_world) = Inr True"
    and b: "fst (fsStat (Path_join ''/proj'' ''fifo'') fifo_world) = Inr KOther"
    by (simp_all add: run_defs demo_defs fifo_world_def)
  show ?thesis
    using unsupported_copy_source [of "''/proj''" "''fifo''" fifo_world "''/tmp''" "''/proj''"] a b
    by simp
qed

subsection \<open>What a write leaves untouched\<close>

text \<open>What is at a path, without what is below it.\<close>

fun shallow :: "node \<Rightarrow> node" where
  "shallow (Dir es) = Dir []"
| "shallow n = n"

definition entry_at :: "node \<Rightarrow> string list \<Rightarrow> node option" where
  "entry_at t q = map_option shallow (lookup t q)"

lemma entry_at_tree_set: "\<not> prefix p q \<Longrightarrow> entry_at (tree_set p n t) q = entry_at t q"
proof (induction p n t arbitrary: q rule: tree_set.induct)
  case (1 n t)
  then show ?case by simp
next
  case (2 x xs n es)
  show ?case
  proof (cases q)
    case Nil
    then show ?thesis by (simp add: entry_at_def split: option.splits)
  next
    case (Cons y ys)
    show ?thesis
    proof (cases "y = x")
      case False
      then show ?thesis
        using Cons by (simp add: entry_at_def AList.update_conv' split: option.splits)
    next
      case True
      then have np: "\<not> prefix xs ys" using 2(2) Cons by simp
      show ?thesis
      proof (cases "map_of es x")
        case None
        then show ?thesis using np Cons True by (auto simp: entry_at_def)
      next
        case (Some c)
        then show ?thesis
          using 2(1) [OF Some np] Cons True by (simp add: entry_at_def AList.update_conv')
      qed
    qed
  qed
qed simp_all

lemma entry_at_tree_del: "\<not> prefix p q \<Longrightarrow> entry_at (tree_del p t) q = entry_at t q"
proof (induction p t arbitrary: q rule: tree_del.induct)
  case (1 t)
  then show ?case by simp
next
  case (2 x xs es)
  show ?case
  proof (cases q)
    case Nil
    then show ?thesis by (simp add: entry_at_def split: option.splits)
  next
    case (Cons y ys)
    show ?thesis
    proof (cases "y = x")
      case False
      then show ?thesis
        using Cons by (simp add: entry_at_def AList.update_conv' AList.delete_conv' split: option.splits)
    next
      case True
      then have np: "\<not> prefix xs ys" using 2(2) Cons by simp
      then have ne: "xs \<noteq> []" by auto
      show ?thesis
      proof (cases "map_of es x")
        case None
        then show ?thesis using ne Cons True by (auto simp: entry_at_def)
      next
        case (Some c)
        then show ?thesis
          using 2(1) [OF ne Some np] ne Cons True by (simp add: entry_at_def AList.update_conv')
      qed
    qed
  qed
qed simp_all

text \<open>
  \<open>outside T w w'\<close>: from \<open>w\<close> to \<open>w'\<close> the working directory is the same and so is every
  entry of the file system that is not at or below \<open>T\<close>.
\<close>

definition outside :: "string list \<Rightarrow> world \<Rightarrow> world \<Rightarrow> bool" where
  "outside T w w' =
     (cwd w' = cwd w \<and> (\<forall>q. \<not> prefix T q \<longrightarrow> entry_at (fsroot w') q = entry_at (fsroot w) q))"

lemma reflp_outside: "reflp (outside T)"
  by (rule reflpI) (simp add: outside_def)

lemma transp_outside: "transp (outside T)"
  by (rule transpI) (simp add: outside_def)

lemma outside_mono: "prefix T T' \<Longrightarrow> outside T' w w' \<Longrightarrow> outside T w w'"
  by (auto simp: outside_def dest: prefix_order.trans)

lemma keeps_outside_mono: "prefix T T' \<Longrightarrow> keeps (outside T') m w \<Longrightarrow> keeps (outside T) m w"
  by (simp add: keeps_def outside_mono)

lemma outside_log_to: "keeps (outside T) (log_to lg lv msg) w"
  by (simp add: keeps_def outside_def log_to_def)

lemma outside_fsMkdir: "is_absolute p \<Longrightarrow> keeps (outside (path_segments p)) (fsMkdir p) w"
  by (auto simp: keeps_def outside_def fsMkdir_def resolve_absolute entry_at_tree_set
      split: option.splits node.splits)

lemma outside_fsCopyFile:
  "is_absolute p \<Longrightarrow> keeps (outside (path_segments p)) (fsCopyFile s p) w"
  by (auto simp: keeps_def outside_def fsCopyFile_def resolve_absolute entry_at_tree_set
      split: sum.splits option.splits node.splits)

lemma outside_copyDirectory:
  "is_absolute tp \<Longrightarrow> keeps (outside (path_segments tp)) (copyDirectory sp tp) w"
proof (induction sp tp w rule: copyDirectory.induct)
  case (1 sourcePath targetPath w)
  note r = reflp_outside [of "path_segments targetPath"]
    and t = transp_outside [of "path_segments targetPath"]
  have ne: "targetPath \<noteq> []" using 1(2) by (auto simp: is_absolute_def)
  have item: "keeps (outside (path_segments targetPath))
       (io_bind (fsStat (Path_join sourcePath itemName)) (\<lambda>itemStat.
         if isFile itemStat then
           fsCopyFile (Path_join sourcePath itemName) (Path_join targetPath itemName)
         else if isDirectory itemStat then
           copyDirectory (Path_join sourcePath itemName) (Path_join targetPath itemName)
         else io_return ())) v"
    if ex: "fsExist targetPath w = (Inr x, v0)"
      and mk: "(if \<not> x then fsMkdir targetPath else io_return ()) v0 = (Inr u, v1)"
      and rd: "fsReaddir sourcePath v1 = (Inr files, v2)" and mem: "itemName \<in> set files"
    for x v0 u v1 files v2 itemName v
  proof -
    have vn: "valid_name itemName" using rd mem by (rule fsReaddir_valid_name)
    have abs: "is_absolute (Path_join targetPath itemName)"
      using is_absolute_join [OF vn ne] 1(2) by simp
    have pre: "prefix (path_segments targetPath) (path_segments (Path_join targetPath itemName))"
      using path_segments_join [OF vn, of targetPath] by simp
    show ?thesis
    proof (rule keeps_bind [OF t keeps_fsStat [OF r]])
      fix k v'
      assume st: "fsStat (Path_join sourcePath itemName) v = (Inr k, v')"
      show "keeps (outside (path_segments targetPath))
         (if isFile k then fsCopyFile (Path_join sourcePath itemName) (Path_join targetPath itemName)
          else if isDirectory k then
            copyDirectory (Path_join sourcePath itemName) (Path_join targetPath itemName)
          else io_return ()) v'"
        using keeps_outside_mono [OF pre outside_fsCopyFile [OF abs]]
          keeps_outside_mono [OF pre 1(1) [OF ex mk rd mem st _ _ abs]]
          keeps_return [OF r, of "()"]
        by simp
    qed
  qed
  show ?case
    apply (subst keeps_cong [OF copyDirectory.simps])
    apply (rule keeps_bind [OF t keeps_fsExist [OF r]])
    apply (rule keeps_bind [OF t])
     apply (simp add: outside_fsMkdir [OF 1(2)] keeps_return [OF r])
    apply (rule keeps_bind [OF t keeps_fsReaddir [OF r]])
    apply (rule keeps_for_of [OF r t])
    apply (rule item; assumption)
    done
qed

lemma foldl_norm_no_dotdot:
  "''..'' \<notin> set segs \<Longrightarrow> \<exists>ys. foldl (norm_step a) acc segs = ys @ acc"
proof (induction segs arbitrary: acc)
  case Nil
  then show ?case by simp
next
  case (Cons s segs)
  from Cons.prems have s: "s \<noteq> ''..''" and rest: "''..'' \<notin> set segs" by auto
  have "norm_step a acc s = acc \<or> norm_step a acc s = s # acc"
    using s by auto
  then show ?case
  proof
    assume "norm_step a acc s = acc"
    then show ?thesis using Cons.IH [OF rest, of acc] by (simp del: norm_step.simps)
  next
    assume e: "norm_step a acc s = s # acc"
    from Cons.IH [OF rest, of "s # acc"] obtain ys where
      "foldl (norm_step a) (s # acc) segs = ys @ s # acc" by (auto simp del: norm_step.simps)
    then show ?thesis using e by (auto simp del: norm_step.simps intro: exI [of _ "ys @ [s]"])
  qed
qed

lemma Path_join_below:
  assumes "is_absolute tp" and "''..'' \<notin> set (split_on CHR ''/'' f)"
  shows "is_absolute (Path_join tp f) \<and> prefix (path_segments tp) (path_segments (Path_join tp f))"
proof (cases "f = []")
  case True
  have "tp \<noteq> []" using assms(1) by (auto simp: is_absolute_def)
  then show ?thesis
    using True assms(1) by (simp add: Path_join_def is_absolute_normalize path_segments_normalize)
next
  case False
  have ne: "tp \<noteq> []" using assms(1) by (auto simp: is_absolute_def)
  have abs: "is_absolute (tp @ CHR ''/'' # f)"
    using assms(1) ne by (simp add: is_absolute_def hd_append)
  have j: "Path_join tp f = Path_normalize (tp @ CHR ''/'' # f)"
    using ne False by (simp add: Path_join_def)
  obtain ys where ys: "foldl (norm_step False) (foldl (norm_step False) [] (split_on CHR ''/'' tp))
      (split_on CHR ''/'' f) = ys @ foldl (norm_step False) [] (split_on CHR ''/'' tp)"
    using foldl_norm_no_dotdot [OF assms(2)] by blast
  have "path_segments (tp @ CHR ''/'' # f) = path_segments tp @ rev ys"
    using abs assms(1) ys by (simp add: path_segments_def normalizeString_def split_on_append)
  then show ?thesis
    using abs by (simp add: j path_segments_normalize is_absolute_normalize)
qed

lemma outside_copyItem:
  assumes "is_absolute tp" and "''..'' \<notin> set (split_on CHR ''/'' f)"
  shows "keeps (outside (path_segments tp)) (copyItem wp tp f) w"
proof -
  note r = reflp_outside [of "path_segments tp"] and t = transp_outside [of "path_segments tp"]
  note b = Path_join_below [OF assms]
  have 1: "keeps (outside (path_segments tp)) (fsCopyFile s (Path_join tp f)) v" for s v
    using keeps_outside_mono [OF _ outside_fsCopyFile] b by blast
  have 2: "keeps (outside (path_segments tp)) (copyDirectory s (Path_join tp f)) v" for s v
    using keeps_outside_mono [OF _ outside_copyDirectory] b by blast
  show ?thesis
    unfolding copyItem_def Let_def
    by (auto intro!: keeps_bind [OF t] keeps_reads [OF r] outside_log_to 1 2)
qed

lemma outside_processCopy:
  assumes "is_absolute tp" and "\<forall>f\<in>set files. ''..'' \<notin> set (split_on CHR ''/'' f)"
  shows "keeps (outside (path_segments tp)) (processCopy wp tp files) w"
proof -
  note r = reflp_outside [of "path_segments tp"] and t = transp_outside [of "path_segments tp"]
  show ?thesis
    unfolding processCopy_def
    using assms
    by (auto intro!: keeps_bind [OF t] keeps_for_of [OF r t] keeps_reads [OF r] outside_fsMkdir
        outside_copyItem)
qed


text \<open>
  C10, as amended. When the staging path is absolute and no name of \<^verbatim>\<open>config.files\<close> has a
  \<^verbatim>\<open>..\<close> segment, the copy stage (the top-level copy and the recursive copy of directories)
  writes at or below the staging directory only: every entry of the file system that is
  not at or below the staging directory is after the stage what it was before, whether
  the stage returns or throws. So when the project root and the staging directory are
  not inside one another, no entry under the project root is modified, deleted or
  created.
\<close>

theorem copy_stage_writes_below_staging:
  assumes "is_absolute targetPath"
    and "\<forall>f\<in>set files. ''..'' \<notin> set (split_on CHR ''/'' f)"
  shows "cwd (snd (processCopy workingPath targetPath files w)) = cwd w \<and>
     (\<forall>q. \<not> prefix (path_segments targetPath) q \<longrightarrow>
          entry_at (fsroot (snd (processCopy workingPath targetPath files w))) q =
          entry_at (fsroot w) q) \<and>
     (\<not> prefix (path_segments targetPath) (path_segments workingPath) \<and>
      \<not> prefix (path_segments workingPath) (path_segments targetPath) \<longrightarrow>
      (\<forall>q. prefix (path_segments workingPath) q \<longrightarrow>
          entry_at (fsroot (snd (processCopy workingPath targetPath files w))) q =
          entry_at (fsroot w) q))"
proof -
  have o: "outside (path_segments targetPath) w (snd (processCopy workingPath targetPath files w))"
    using outside_processCopy [OF assms, of workingPath w] by (simp add: keeps_def)
  have "\<not> prefix (path_segments targetPath) q"
    if "\<not> prefix (path_segments targetPath) (path_segments workingPath)"
      and "\<not> prefix (path_segments workingPath) (path_segments targetPath)"
      and "prefix (path_segments workingPath) q" for q
    using that prefix_same_cases [of "path_segments targetPath" q "path_segments workingPath"]
    by blast
  then show ?thesis
    using o by (simp add: outside_def)
qed

lemma demo_copy:
  "processCopy ''/proj'' ''/tmp/st'' [''a.txt'', ''sub''] demo_world =
     (Inr (), demo_world\<lparr>
        fsroot := Dir [(''proj'', Dir [(''zmpack.json'', File ''{}''), (''a.txt'', File ''hi''),
                          (''sub'', Dir [(''b.txt'', File ''x'')])]),
          (''tmp'', Dir [(''st'', Dir [(''a.txt'', File ''hi''),
                                       (''sub'', Dir [(''b.txt'', File ''x'')])])]),
          (''out'', Dir [])],
        logs := [(CopyLogger, TRACE, Text (''copy file '' @ quoted ''a.txt'')),
                 (CopyLogger, TRACE, Text (''copy directory '' @ quoted ''sub''))]\<rparr>)"
  by (simp add: run_defs demo_defs
      cong: io_bind_weak_cong prod.case_cong_weak sum.case_cong_weak option.case_cong_weak
        node.case_cong_weak)

theorem copy_stage_writes_below_staging_witness:
  "is_absolute ''/tmp/st'' \<and>
   ''..'' \<notin> set (split_on CHR ''/'' ''a.txt'') \<and> ''..'' \<notin> set (split_on CHR ''/'' ''sub'') \<and>
   fst (processCopy ''/proj'' ''/tmp/st'' [''a.txt'', ''sub''] demo_world) = Inr () \<and>
   lookup (fsroot (snd (processCopy ''/proj'' ''/tmp/st'' [''a.txt'', ''sub''] demo_world)))
     [''tmp'', ''st'', ''sub'', ''b.txt''] = Some (File ''x'') \<and>
   entry_at (fsroot (snd (processCopy ''/proj'' ''/tmp/st'' [''a.txt'', ''sub''] demo_world)))
     [''proj'', ''sub'', ''b.txt''] = entry_at (fsroot demo_world) [''proj'', ''sub'', ''b.txt'']"
proof -
  have a: "is_absolute ''/tmp/st''"
    by (simp add: is_absolute_def)
  have b: "\<forall>f\<in>set [''a.txt'', ''sub'']. ''..'' \<notin> set (split_on CHR ''/'' f)"
    by simp
  have c: "\<not> prefix (path_segments ''/tmp/st'') [''proj'', ''sub'', ''b.txt'']"
    by (simp add: path_segments_def normalizeString_def is_absolute_def)
  show ?thesis
    using copy_stage_writes_below_staging [OF a b, of "''/proj''" demo_world] a b c
    by (simp add: demo_copy)
qed

text \<open>
  With the project root \<^verbatim>\<open>/a/b\<close>, the staging directory \<^verbatim>\<open>/a/t/st\<close> and the name
  \<^verbatim>\<open>../../b/x\<close> in \<^verbatim>\<open>config.files\<close>, the copy stage reads \<^verbatim>\<open>/b/x\<close>, outside the project
  root, and creates \<^verbatim>\<open>/a/b/x\<close>, under the project root and outside the staging directory.
\<close>

definition escape_world :: world where
  "escape_world = demo_world\<lparr>
     fsroot := Dir [(''a'', Dir [(''b'', Dir []), (''t'', Dir [])]), (''b'', Dir [(''x'', File ''s'')])],
     cwd := [''a'', ''b'']\<rparr>"

theorem copy_stage_escape_counterexample:
  "fst (processCopy ''/a/b'' ''/a/t/st'' [''../../b/x''] escape_world) = Inr () \<and>
   lookup (fsroot escape_world) [''a'', ''b'', ''x''] = None \<and>
   lookup (fsroot (snd (processCopy ''/a/b'' ''/a/t/st'' [''../../b/x''] escape_world)))
     [''a'', ''b'', ''x''] = Some (File ''s'') \<and>
   path_segments ''/a/b'' = [''a'', ''b''] \<and> path_segments ''/a/t/st'' = [''a'', ''t'', ''st'']"
  by (simp add: run_defs demo_defs escape_world_def
      cong: io_bind_weak_cong prod.case_cong_weak sum.case_cong_weak option.case_cong_weak
        node.case_cong_weak)

subsection \<open>Removing a tree\<close>

text \<open>
  A tree as a file system holds it: in every directory the names are distinct and valid.
  \<open>plain_tree\<close>: every entry in the tree is a file or a directory. \<open>fits p t\<close>: the path \<open>p\<close>
  of the tree and the paths of all its entries are shorter than \<open>PATH_MAX\<close>.
\<close>

fun wf_node :: "node \<Rightarrow> bool" where
  "wf_node (Dir es) =
     (distinct (map fst es) \<and> list_all (\<lambda>e. valid_name (fst e) \<and> wf_node (snd e)) es)"
| "wf_node n = True"

fun plain_tree :: "node \<Rightarrow> bool" where
  "plain_tree (Dir es) = list_all (\<lambda>e. plain_tree (snd e)) es"
| "plain_tree (File c) = True"
| "plain_tree Other = False"

fun fits :: "string \<Rightarrow> node \<Rightarrow> bool" where
  "fits p (Dir es) =
     (length p < PATH_MAX \<and> list_all (\<lambda>e. fits (Path_join p (fst e)) (snd e)) es)"
| "fits p n = (length p < PATH_MAX)"

lemma fits_length: "fits p t \<Longrightarrow> length p < PATH_MAX"
  by (cases t) auto

lemma lookup_append:
  "lookup t (p @ q) = (case lookup t p of None \<Rightarrow> None | Some c \<Rightarrow> lookup c q)"
  by (induction t p rule: lookup.induct) (auto split: option.splits)

lemma lookup_child: "lookup t p = Some (Dir es) \<Longrightarrow> lookup t (p @ [n]) = map_of es n"
  by (simp add: lookup_append split: option.splits)

lemma lookup_tree_del_child:
  "lookup t p = Some (Dir es) \<Longrightarrow> lookup (tree_del (p @ [n]) t) p = Some (Dir (AList.delete n es))"
proof (induction t p rule: lookup.induct)
  case (1 t)
  then show ?case by simp
next
  case (2 es0 x xs)
  then show ?case
    by (auto simp: AList.update_conv' split: option.splits)
qed simp_all

lemma tree_del_tree_del_child: "p \<noteq> [] \<Longrightarrow> tree_del p (tree_del (p @ [n]) t) = tree_del p t"
proof (induction p t rule: tree_del.induct)
  case (1 t)
  then show ?case by simp
next
  case (2 x xs es)
  show ?case
  proof (cases "xs = []")
    case True
    then show ?thesis
      by (simp add: AList.delete_update_same split: option.splits)
  next
    case False
    show ?thesis
    proof (cases "map_of es x")
      case None
      then show ?thesis using False by simp
    next
      case (Some c)
      then show ?thesis
        using False 2(1) [OF False Some False] by (simp add: AList.update_conv')
    qed
  qed
qed simp_all

lemma join_with_nonempty: "xs \<noteq> [] \<Longrightarrow> last xs \<noteq> [] \<Longrightarrow> join_with sep xs \<noteq> []"
  by (induction sep xs rule: join_with.induct) auto

lemma last_join_with:
  "xs \<noteq> [] \<Longrightarrow> last xs \<noteq> [] \<Longrightarrow> last (join_with sep xs) = last (last xs)"
  by (induction sep xs rule: join_with.induct) (auto simp: join_with_nonempty)

lemma trailing_separator_join:
  assumes "valid_name n"
  shows "\<not> trailing_separator (Path_join p n)"
proof (cases "p = []")
  case True
  have n0: "n \<noteq> []" using assms by (simp add: valid_name_def)
  then have l: "last n \<in> set n" and h: "hd n \<in> set n" by simp_all
  have n: "n \<noteq> []" "last n \<noteq> CHR ''/''" "hd n \<noteq> CHR ''/''"
    using assms l h unfolding valid_name_def by metis+
  have "Path_normalize n = n"
    using n path_segments_valid_name [OF assms]
    by (simp add: Path_normalize_def is_absolute_def trailing_separator_def)
  then show ?thesis
    using True n by (simp add: Path_join_def trailing_separator_def)
next
  case False
  let ?s = "p @ CHR ''/'' # n"
  have n0: "n \<noteq> []" using assms by (simp add: valid_name_def)
  then have l: "last n \<in> set n" by simp
  have n: "n \<noteq> []" "last n \<noteq> CHR ''/''"
    using assms l unfolding valid_name_def by metis+
  have segs: "path_segments ?s = path_segments p @ [n]"
    using path_segments_append_name [OF assms False] by simp
  have nt: "\<not> trailing_separator ?s"
    by (rule trailing_separator_append_name [OF assms])
  have all: "\<forall>s\<in>set (path_segments ?s). s \<noteq> []"
    using normal_stack_all [OF path_segments_normal [of ?s]] by auto
  have body: "join_with ''/'' (path_segments ?s) \<noteq> []"
    using join_with_Nil_iff [OF all, of "''/''"] segs by simp
  have "Path_normalize ?s = (if is_absolute ?s then ''/'' else []) @ join_with ''/'' (path_segments ?s)"
    using nt body by (simp add: Path_normalize_def Let_def)
  moreover have "last (join_with ''/'' (path_segments ?s)) = last n"
    using last_join_with [of "path_segments ?s" "''/''"] segs n by simp
  ultimately have "last (Path_normalize ?s) = last n"
    using body by simp
  then show ?thesis
    using False n by (simp add: Path_join_def trailing_separator_def)
qed

lemma path_lookup_absolute:
  assumes "is_absolute p" and "length p < PATH_MAX"
    and "lookup (fsroot w) (path_segments p) = Some c"
    and "\<not> trailing_separator p \<or> kind_of c = KDir"
  shows "path_lookup p w = Inr c"
  using assms by (auto simp: path_lookup_def resolve_absolute is_absolute_def)

lemma removeEntry_step:
  assumes abs: "is_absolute p" and vn: "valid_name n" and len: "length (Path_join p n) < PATH_MAX"
    and lk: "lookup (fsroot v) (path_segments p @ [n]) = Some c"
  shows "removeEntry p n v =
     (case c of
        File s \<Rightarrow> (Inr (), v\<lparr>fsroot := tree_del (path_segments p @ [n]) (fsroot v)\<rparr>)
      | Dir es \<Rightarrow> rmDirectoryRecursive (Path_join p n) v
      | Other \<Rightarrow> (Inl (UnsupportedEntryKind (Path_join p n)), v))"
proof -
  have ne: "p \<noteq> []" using abs by (auto simp: is_absolute_def)
  have a: "is_absolute (Path_join p n)" using is_absolute_join [OF vn ne] abs by simp
  have s: "path_segments (Path_join p n) = path_segments p @ [n]" by (rule path_segments_join [OF vn])
  have pl: "path_lookup (Path_join p n) v = Inr c"
    using path_lookup_absolute [OF a len] lk s trailing_separator_join [OF vn, of p] by simp
  show ?thesis
    using pl s a
    by (cases c)
       (simp_all add: removeEntry_def io_bind_def fsStat_def fsUnlink_def isFile_def isDirectory_def
          io_throw_def resolve_absolute)
qed

lemma listing_wf: "wf_node (Dir es) \<Longrightarrow> listing es = map fst es"
  by (auto simp: listing_def list_all_iff filter_id_conv)

lemma rm_tree:
  "is_absolute p \<Longrightarrow> path_segments p \<noteq> [] \<Longrightarrow> wf_node t \<Longrightarrow> fits p t \<Longrightarrow> kind_of t = KDir \<Longrightarrow>
   lookup (fsroot w) (path_segments p) = Some t \<Longrightarrow>
   (plain_tree t \<longrightarrow>
      rmDirectoryRecursive p w = (Inr (), w\<lparr>fsroot := tree_del (path_segments p) (fsroot w)\<rparr>)) \<and>
   (\<not> plain_tree t \<longrightarrow> (\<exists>q v. rmDirectoryRecursive p w = (Inl (UnsupportedEntryKind q), v)))"
proof (induction t arbitrary: p w)
  case (File c)
  then show ?case by simp
next
  case Other
  then show ?case by simp
next
  case (Dir es)
  let ?P = "path_segments p"
  note abs = Dir.prems(1) and ne = Dir.prems(2) and wf = Dir.prems(3) and fit = Dir.prems(4)
    and lk = Dir.prems(6)
  have len: "length p < PATH_MAX" using fit by simp
  have child: "valid_name n \<and> wf_node c \<and> fits (Path_join p n) c" if "(n, c) \<in> set es" for n c
    using that wf fit by (auto simp: list_all_iff)
  have childP: "path_segments (Path_join p n) \<noteq> [] \<and> is_absolute (Path_join p n)"
    if "(n, c) \<in> set es" for n c
  proof -
    have "p \<noteq> []" using abs by (auto simp: is_absolute_def)
    then show ?thesis
      using child [OF that] path_segments_join [of n p] is_absolute_join [of n p] abs by simp
  qed
  have loop: "(list_all (\<lambda>e. plain_tree (snd e)) rest \<longrightarrow>
        (\<exists>r. for_of (map fst rest) (removeEntry p) v = (Inr (), v\<lparr>fsroot := r\<rparr>) \<and>
             lookup r ?P = Some (Dir []) \<and> tree_del ?P r = tree_del ?P (fsroot v))) \<and>
     (\<not> list_all (\<lambda>e. plain_tree (snd e)) rest \<longrightarrow>
        (\<exists>q v'. for_of (map fst rest) (removeEntry p) v = (Inl (UnsupportedEntryKind q), v')))"
    if "lookup (fsroot v) ?P = Some (Dir rest)" and "set rest \<subseteq> set es"
      and "distinct (map fst rest)" for rest v
    using that
  proof (induction rest arbitrary: v)
    case Nil
    then show ?case
      by (auto intro: exI [of _ "fsroot v"])
  next
    case (Cons e rest)
    obtain n c where e: "e = (n, c)" by (cases e)
    have mem: "(n, c) \<in> set es" using Cons.prems(2) e by simp
    note ch = child [OF mem] and chP = childP [OF mem]
    have lkc: "lookup (fsroot v) (?P @ [n]) = Some c"
      using lookup_child [OF Cons.prems(1), of n] e by simp
    have step: "removeEntry p n v =
       (case c of
          File s \<Rightarrow> (Inr (), v\<lparr>fsroot := tree_del (?P @ [n]) (fsroot v)\<rparr>)
        | Dir es' \<Rightarrow> rmDirectoryRecursive (Path_join p n) v
        | Other \<Rightarrow> (Inl (UnsupportedEntryKind (Path_join p n)), v))"
      using removeEntry_step [OF abs _ _ lkc] ch fits_length by blast
    have notin: "n \<notin> fst ` set rest" using Cons.prems(3) e by simp
    let ?v1 = "v\<lparr>fsroot := tree_del (?P @ [n]) (fsroot v)\<rparr>"
    have lk1: "lookup (fsroot ?v1) ?P = Some (Dir rest)"
      using lookup_tree_del_child [OF Cons.prems(1), of n] e notin by simp
    have ih: "(list_all (\<lambda>e. plain_tree (snd e)) rest \<longrightarrow>
        (\<exists>r. for_of (map fst rest) (removeEntry p) ?v1 = (Inr (), ?v1\<lparr>fsroot := r\<rparr>) \<and>
             lookup r ?P = Some (Dir []) \<and> tree_del ?P r = tree_del ?P (fsroot ?v1))) \<and>
     (\<not> list_all (\<lambda>e. plain_tree (snd e)) rest \<longrightarrow>
        (\<exists>q v'. for_of (map fst rest) (removeEntry p) ?v1 = (Inl (UnsupportedEntryKind q), v')))"
      using Cons.IH [OF lk1] Cons.prems(2,3) by simp
    have td: "tree_del ?P (fsroot ?v1) = tree_del ?P (fsroot v)"
      using tree_del_tree_del_child [OF ne] by simp
    have removed: "removeEntry p n v = (Inr (), ?v1)" if "plain_tree c"
    proof (cases c)
      case (File s)
      then show ?thesis using step by simp
    next
      case (Dir es')
      have "c \<in> Basic_BNFs.snds e" using e by simp
      from Dir.IH [OF _ this, of "Path_join p n" v] Cons.prems(2) e
      have "rmDirectoryRecursive (Path_join p n) v =
          (Inr (), v\<lparr>fsroot := tree_del (path_segments (Path_join p n)) (fsroot v)\<rparr>)"
        using chP ch lkc that Dir path_segments_join [of n p] by simp
      then show ?thesis
        using step Dir ch path_segments_join [of n p] by simp
    next
      case Other
      then show ?thesis using that by simp
    qed
    have thrown: "\<exists>q v'. removeEntry p n v = (Inl (UnsupportedEntryKind q), v')" if "\<not> plain_tree c"
    proof (cases c)
      case (File s)
      then show ?thesis using that by simp
    next
      case (Dir es')
      have "c \<in> Basic_BNFs.snds e" using e by simp
      from Dir.IH [OF _ this, of "Path_join p n" v] Cons.prems(2) e
      have "\<exists>q v'. rmDirectoryRecursive (Path_join p n) v = (Inl (UnsupportedEntryKind q), v')"
        using chP ch lkc that Dir path_segments_join [of n p] by simp
      then show ?thesis
        using step Dir by simp
    next
      case Other
      then show ?thesis using step by simp
    qed
    show ?case
    proof (cases "plain_tree c")
      case True
      have f: "for_of (map fst (e # rest)) (removeEntry p) v =
               for_of (map fst rest) (removeEntry p) ?v1"
        using removed [OF True] e by simp
      show ?thesis
        unfolding f using ih True e td by simp
    next
      case False
      from thrown [OF False] obtain q v' where
        "removeEntry p n v = (Inl (UnsupportedEntryKind q), v')" by blast
      then have "for_of (map fst (e # rest)) (removeEntry p) v = (Inl (UnsupportedEntryKind q), v')"
        using e by simp
      then show ?thesis using False e by auto
    qed
  qed
  have rd: "fsReaddir p w = (Inr (map fst es), w)"
    using path_lookup_absolute [OF abs len lk] listing_wf [OF wf] by (simp add: fsReaddir_def)
  have dist: "distinct (map fst es)" using wf by simp
  note l = loop [OF lk subset_refl dist]
  show ?case
  proof (cases "plain_tree (Dir es)")
    case True
    then obtain r where r: "for_of (map fst es) (removeEntry p) w = (Inr (), w\<lparr>fsroot := r\<rparr>)"
      "lookup r ?P = Some (Dir [])" "tree_del ?P r = tree_del ?P (fsroot w)"
      using l by auto
    have "path_lookup p (w\<lparr>fsroot := r\<rparr>) = Inr (Dir [])"
      using path_lookup_absolute [OF abs len, of "w\<lparr>fsroot := r\<rparr>" "Dir []"] r(2) by simp
    then have "fsRmdir p (w\<lparr>fsroot := r\<rparr>) = (Inr (), w\<lparr>fsroot := tree_del ?P (fsroot w)\<rparr>)"
      using ne r(3) abs by (simp add: fsRmdir_def resolve_absolute listing_def)
    then show ?thesis
      using True rd r(1) by (simp add: rmDirectoryRecursive_unfold io_bind_def)
  next
    case False
    then obtain q v' where "for_of (map fst es) (removeEntry p) w = (Inl (UnsupportedEntryKind q), v')"
      using l by auto
    then show ?thesis
      using False rd by (auto simp: rmDirectoryRecursive_unfold io_bind_def)
  qed
qed


lemma lookup_tree_del_below: "p \<noteq> [] \<Longrightarrow> lookup (tree_del p t) (p @ q) = None"
  by (simp add: lookup_append lookup_tree_del_same)

lemma runAction_delete_directory_fails:
  assumes "fst (fsExist (Path_join workingPath itemName) v) = Inr True"
    and "fst (fsStat (Path_join workingPath itemName) v) = Inr KDir"
    and "rmDirectoryRecursive (Path_join workingPath itemName)
           (v\<lparr>logs := logs v @ [(ActionLogger, INFO, Text (''DELETE '' @ quoted itemName))]\<rparr>)
         = (Inl err, x)"
  shows "runAction e stageName workingPath (''delete'' # itemName # extra) v = (Inl err, x)"
proof -
  have ex: "fsExist (Path_join workingPath itemName) v' = (Inr True, v')"
    if "fsroot v' = fsroot v" "cwd v' = cwd v" for v'
    using assms(1) path_lookup_same [OF that] by (simp add: fsExist_def)
  have st: "fsStat (Path_join workingPath itemName) v' = (Inr KDir, v')"
    if "fsroot v' = fsroot v" "cwd v' = cwd v" for v'
    using assms(2) path_lookup_same [OF that] by (simp add: fsStat_def split: sum.splits)
  show ?thesis
    using assms(3)
    by (simp add: runAction_def Let_def at_index_def js_string_def io_bind_def log_to_def ex st
        isFile_def isDirectory_def)
qed

text \<open>
  C6. \<^verbatim>\<open>rmDirectoryRecursive\<close> on a directory (given by an absolute path other than the
  root, all paths in it shorter than \<open>PATH_MAX\<close>): when every entry in it is a file or a
  directory it returns, and the directory with all that was in it is gone while nothing
  else has changed; when some entry is neither, it throws \<open>UnsupportedEntryKind\<close>. The
  loop throws that error on an entry that is neither a file nor a directory, where the
  copy skips it. The error of a removal ends the delete action, the loop and the stage it
  is in, and \<^verbatim>\<open>processConfig\<close> with the stage, or with the final removal of the staging
  directory.
\<close>

theorem rmDirectoryRecursive_removes_or_throws:
  assumes "is_absolute dirPath" and "path_segments dirPath \<noteq> []"
    and "lookup (fsroot w) (path_segments dirPath) = Some (Dir es)"
    and "wf_node (Dir es)" and "fits dirPath (Dir es)"
  shows "(plain_tree (Dir es) \<longrightarrow>
            rmDirectoryRecursive dirPath w =
              (Inr (), w\<lparr>fsroot := tree_del (path_segments dirPath) (fsroot w)\<rparr>)
          \<and> (\<forall>q. lookup (tree_del (path_segments dirPath) (fsroot w)) (path_segments dirPath @ q)
                 = None)
          \<and> (\<forall>q. \<not> prefix (path_segments dirPath) q \<longrightarrow>
                 entry_at (tree_del (path_segments dirPath) (fsroot w)) q = entry_at (fsroot w) q))
       \<and> (\<not> plain_tree (Dir es) \<longrightarrow>
            (\<exists>q v. rmDirectoryRecursive dirPath w = (Inl (UnsupportedEntryKind q), v)))
       \<and> rmDirectoryRecursive dirPath =
            io_bind (fsReaddir dirPath) (\<lambda>files.
            io_bind (for_of files (removeEntry dirPath)) (\<lambda>u.
            fsRmdir dirPath))
       \<and> (\<forall>itemName v. fst (fsStat (Path_join dirPath itemName) v) = Inr KOther \<longrightarrow>
            removeEntry dirPath itemName v =
              (Inl (UnsupportedEntryKind (Path_join dirPath itemName)), v))
       \<and> (\<forall>e stageName workingPath itemName extra v err x.
            fst (fsExist (Path_join workingPath itemName) v) = Inr True \<and>
            fst (fsStat (Path_join workingPath itemName) v) = Inr KDir \<and>
            rmDirectoryRecursive (Path_join workingPath itemName)
              (v\<lparr>logs := logs v @ [(ActionLogger, INFO, Text (''DELETE '' @ quoted itemName))]\<rparr>)
              = (Inl err, x) \<longrightarrow>
            runAction e stageName workingPath (''delete'' # itemName # extra) v = (Inl err, x))
       \<and> (\<forall>e stageName workingPath w0 w1 w2 before action rest err x.
            process_chdir workingPath
              (w0\<lparr>logs := logs w0 @ [(ActionLogger, TRACE, Text (''chdir to '' @ quoted workingPath))]\<rparr>)
              = (Inr (), w1) \<and>
            for_of before (runAction e stageName workingPath) w1 = (Inr (), w2) \<and>
            runAction e stageName workingPath action w2 = (Inl err, x) \<longrightarrow>
            processActions e stageName workingPath (before @ action # rest) w0 = (Inl err, x))
       \<and> (\<forall>e config u err x.
            processActions e ''copyBefore'' (process_cwd e) (cfg_copyBefore config)
              (announce ''run copyBefore'' u) = (Inl err, x) \<longrightarrow>
            processConfig e config u = (Inl err, x))
       \<and> (\<forall>e config u w1 w2 err x.
            processActions e ''copyBefore'' (process_cwd e) (cfg_copyBefore config)
              (announce ''run copyBefore'' u) = (Inr (), w1) \<and>
            processCopy (process_cwd e) (tempDirPath e config (clock w1)) (cfg_files config)
              (announce ''run copy'' w1) = (Inr (), w2) \<and>
            processActions e ''copyAfter'' (process_cwd e) (cfg_copyAfter config)
              (announce ''run copyAfter'' w2) = (Inl err, x) \<longrightarrow>
            processConfig e config u = (Inl err, x))
       \<and> (\<forall>e config u w1 w2 w3 err x.
            processActions e ''copyBefore'' (process_cwd e) (cfg_copyBefore config)
              (announce ''run copyBefore'' u) = (Inr (), w1) \<and>
            processCopy (process_cwd e) (tempDirPath e config (clock w1)) (cfg_files config)
              (announce ''run copy'' w1) = (Inr (), w2) \<and>
            processActions e ''copyAfter'' (process_cwd e) (cfg_copyAfter config)
              (announce ''run copyAfter'' w2) = (Inr (), w3) \<and>
            processActions e ''copyBefore'' (tempDirPath e config (clock w1)) (cfg_packBefore config)
              (announce ''run packBefore'' w3) = (Inl err, x) \<longrightarrow>
            processConfig e config u = (Inl err, x))
       \<and> (\<forall>e config u w1 w2 w3 w4 w5 err x.
            processActions e ''copyBefore'' (process_cwd e) (cfg_copyBefore config)
              (announce ''run copyBefore'' u) = (Inr (), w1) \<and>
            processCopy (process_cwd e) (tempDirPath e config (clock w1)) (cfg_files config)
              (announce ''run copy'' w1) = (Inr (), w2) \<and>
            processActions e ''copyAfter'' (process_cwd e) (cfg_copyAfter config)
              (announce ''run copyAfter'' w2) = (Inr (), w3) \<and>
            processActions e ''copyBefore'' (tempDirPath e config (clock w1)) (cfg_packBefore config)
              (announce ''run packBefore'' w3) = (Inr (), w4) \<and>
            processPack e (tempDirPath e config (clock w1)) (targetFilePath config (clock w1))
              (announce ''run pack'' w4) = (Inr (), w5) \<and>
            processActions e ''copyBefore'' (tempDirPath e config (clock w1)) (cfg_packAfter config)
              (announce ''run packAfter'' w5) = (Inl err, x) \<longrightarrow>
            processConfig e config u = (Inl err, x))
       \<and> (\<forall>e config u w1 w2 w3 w4 w5 w6 w7 err x.
            processActions e ''copyBefore'' (process_cwd e) (cfg_copyBefore config)
              (announce ''run copyBefore'' u) = (Inr (), w1) \<and>
            processCopy (process_cwd e) (tempDirPath e config (clock w1)) (cfg_files config)
              (announce ''run copy'' w1) = (Inr (), w2) \<and>
            processActions e ''copyAfter'' (process_cwd e) (cfg_copyAfter config)
              (announce ''run copyAfter'' w2) = (Inr (), w3) \<and>
            processActions e ''copyBefore'' (tempDirPath e config (clock w1)) (cfg_packBefore config)
              (announce ''run packBefore'' w3) = (Inr (), w4) \<and>
            processPack e (tempDirPath e config (clock w1)) (targetFilePath config (clock w1))
              (announce ''run pack'' w4) = (Inr (), w5) \<and>
            processActions e ''copyBefore'' (tempDirPath e config (clock w1)) (cfg_packAfter config)
              (announce ''run packAfter'' w5) = (Inr (), w6) \<and>
            process_chdir (process_cwd e) w6 = (Inr (), w7) \<and>
            rmDirectoryRecursive (tempDirPath e config (clock w1)) w7 = (Inl err, x) \<longrightarrow>
            processConfig e config u = (Inl err, x))"
proof -
  note t = rm_tree [OF assms(1,2,4,5) _ assms(3)]
  have other: "removeEntry dirPath itemName v =
              (Inl (UnsupportedEntryKind (Path_join dirPath itemName)), v)"
    if "fst (fsStat (Path_join dirPath itemName) v) = Inr KOther" for itemName v
  proof -
    have "fsStat (Path_join dirPath itemName) v = (Inr KOther, v)"
      using that by (simp add: fsStat_def split: sum.splits)
    then show ?thesis
      by (simp add: removeEntry_def io_bind_def isFile_def isDirectory_def io_throw_def)
  qed
  show ?thesis
    apply (intro conjI allI impI)
                apply (simp add: t)
               apply (simp add: lookup_tree_del_below [OF assms(2)])
              apply (simp add: entry_at_tree_del)
             apply (simp add: t)
            apply (rule rmDirectoryRecursive_unfold)
           apply (erule other)
          apply (blast intro: runAction_delete_directory_fails)
         apply (blast intro: processActions_fails)
        apply (blast intro: processConfig_fails_copyBefore)
       apply (blast intro: processConfig_fails_copyAfter)
      apply (blast intro: processConfig_fails_packBefore)
     apply (blast intro: processConfig_fails_packAfter)
    apply (blast intro: processConfig_fails_cleanup)
    done
qed

theorem rmDirectoryRecursive_removes_or_throws_witness:
  "is_absolute ''/proj'' \<and> path_segments ''/proj'' \<noteq> [] \<and>
   lookup (fsroot demo_world) (path_segments ''/proj'') =
     Some (Dir [(''zmpack.json'', File ''{}''), (''a.txt'', File ''hi''),
                (''sub'', Dir [(''b.txt'', File ''x'')])]) \<and>
   wf_node (Dir [(''zmpack.json'', File ''{}''), (''a.txt'', File ''hi''),
                (''sub'', Dir [(''b.txt'', File ''x'')])]) \<and>
   fits ''/proj'' (Dir [(''zmpack.json'', File ''{}''), (''a.txt'', File ''hi''),
                (''sub'', Dir [(''b.txt'', File ''x'')])]) \<and>
   plain_tree (Dir [(''zmpack.json'', File ''{}''), (''a.txt'', File ''hi''),
                (''sub'', Dir [(''b.txt'', File ''x'')])]) \<and>
   rmDirectoryRecursive ''/proj'' demo_world =
     (Inr (), demo_world\<lparr>fsroot := Dir [(''tmp'', Dir []), (''out'', Dir [])]\<rparr>)"
proof -
  let ?es = "[(''zmpack.json'', File ''{}''), (''a.txt'', File ''hi''),
                (''sub'', Dir [(''b.txt'', File ''x'')])]"
  have a: "is_absolute ''/proj''" by (simp add: is_absolute_def)
  have s: "path_segments ''/proj'' = [''proj'']"
    by (simp add: path_segments_def normalizeString_def is_absolute_def)
  have b: "path_segments ''/proj'' \<noteq> []" by (simp add: s)
  have c: "lookup (fsroot demo_world) (path_segments ''/proj'') = Some (Dir ?es)"
    by (simp add: s demo_defs)
  have d: "wf_node (Dir ?es)" by (simp add: valid_name_def)
  have e: "fits ''/proj'' (Dir ?es)"
    by (simp add: PATH_MAX_def Path_join_def Path_normalize_def path_segments_def
        normalizeString_def is_absolute_def trailing_separator_def)
  have f: "plain_tree (Dir ?es)" by simp
  have g: "tree_del (path_segments ''/proj'') (fsroot demo_world) = Dir [(''tmp'', Dir []), (''out'', Dir [])]"
    by (simp add: s demo_defs)
  have r: "rmDirectoryRecursive ''/proj'' demo_world =
     (Inr (), demo_world\<lparr>fsroot := tree_del (path_segments ''/proj'') (fsroot demo_world)\<rparr>)"
    using rmDirectoryRecursive_removes_or_throws [OF a b c d e] f by blast
  show ?thesis
    by (intro conjI a b c d e f) (simp add: r g)
qed

end
